(* ===== verification/Go_Prelude.thy ===== *)
theory Go_Prelude
  imports Main "HOL-Library.Word" "HOL-Library.Multiset"
begin

text \<open>
  The prelude of the development: the types and helpers that the translation of the Go program
  shares, and the generic lemmas the components use.

  \<^item> Machine integers are words of the source's width (\<open>uint8\<close>, \<open>int8\<close>, \<open>uint32\<close>, \<open>int32\<close>,
    \<open>uint64\<close>, \<open>int64\<close>); a signed type is read with \<^const>\<open>sint\<close>.
  \<^item> A Go string is a byte sequence; it is modelled by \<^typ>\<open>string\<close> (a list of 8-bit characters),
    so \<^const>\<open>length\<close> is Go's \<open>len\<close>.
  \<^item> A Go \<open>error\<close> is a value of \<open>go_error\<close>. \<open>fmt.Errorf\<close> keeps its template and its
    arguments; what \<open>%w\<close> wraps can be recovered with \<open>unwrap\<close>, what \<open>%v\<close> prints cannot, as with
    \<open>errors.Unwrap\<close>.
  \<^item> A function returning \<open>(T, error)\<close> returns a sum: \<open>Inl\<close> the error, \<open>Inr\<close> the value.
  \<^item> An operation with visible side effects returns the list of its effects beside its result; a
    deferred call is an effect appended after the rest of the body (\<open>defer_ev\<close>), so that several
    deferred calls run in the reverse of the order in which they were deferred.
\<close>

section \<open>Named collections\<close>

named_theorems worker_laws "laws of the per-database workers"

section \<open>Machine integers and strings\<close>

type_synonym u8 = "8 word"
type_synonym i8 = "8 word"
type_synonym u32 = "32 word"
type_synonym i32 = "32 word"
type_synonym u64 = "64 word"
type_synonym i64 = "64 word"

text \<open>Byte classes used by the regular expressions and by \<open>net/url\<close>.\<close>

definition is_digit :: "char \<Rightarrow> bool" where
  "is_digit c \<longleftrightarrow> 48 \<le> (of_char c :: nat) \<and> (of_char c :: nat) \<le> 57"

definition is_lower :: "char \<Rightarrow> bool" where
  "is_lower c \<longleftrightarrow> 97 \<le> (of_char c :: nat) \<and> (of_char c :: nat) \<le> 122"

definition is_upper :: "char \<Rightarrow> bool" where
  "is_upper c \<longleftrightarrow> 65 \<le> (of_char c :: nat) \<and> (of_char c :: nat) \<le> 90"

definition is_ascii :: "char \<Rightarrow> bool" where
  "is_ascii c \<longleftrightarrow> (of_char c :: nat) < 128"

lemmas byte_classes = is_digit_def is_lower_def is_upper_def is_ascii_def

text \<open>
  \<open>strings.ToLower\<close>, as far as a comparison of its result with an ASCII literal can observe it.
  An ASCII byte is lowered; the two non-ASCII code points whose lower case is an ASCII letter,
  U+0130 (bytes C4 B0, lowered to \<open>i\<close>) and U+212A (bytes E2 84 AA, lowered to \<open>k\<close>), are replaced by
  that letter; every other non-ASCII code point (and every invalid byte, which becomes U+FFFD) is
  lowered to a non-ASCII code point, so its bytes are kept.
\<close>

definition lower_byte :: "char \<Rightarrow> char" where
  "lower_byte c = (if is_upper c then char_of ((of_char c :: nat) + 32) else c)"

fun ToLower :: "string \<Rightarrow> string" where
  "ToLower [] = []"
| "ToLower (a # b # c # s) =
     (if a = CHR 0xC4 \<and> b = CHR 0xB0 then CHR ''i'' # ToLower (c # s)
      else if a = CHR 0xE2 \<and> b = CHR 0x84 \<and> c = CHR 0xAA
      then CHR ''k'' # ToLower s
      else lower_byte a # ToLower (b # c # s))"
| "ToLower [a, b] =
     (if a = CHR 0xC4 \<and> b = CHR 0xB0 then [CHR ''i'']
      else [lower_byte a, lower_byte b])"
| "ToLower [a] = [lower_byte a]"

lemma lower_byte_non_ascii: "\<not> is_ascii c \<Longrightarrow> lower_byte c = c"
  by (simp add: lower_byte_def byte_classes)

lemma of_char_lower_byte:
  "(of_char (lower_byte c) :: nat) = (if is_upper c then of_char c + 32 else of_char c)"
  by (simp add: lower_byte_def is_upper_def take_bit_nat_eq_self)

lemma char_eq_of_char: "c = d \<longleftrightarrow> (of_char c :: nat) = of_char d"
  by simp

lemma lower_byte_eq_iff:
  "lower_byte c = d \<longleftrightarrow>
    (if is_lower d then of_char c = (of_char d :: nat) \<or> of_char c + 32 = (of_char d :: nat)
     else c = d \<and> \<not> is_upper c)"
  unfolding char_eq_of_char [of "lower_byte c"] of_char_lower_byte
  by (auto simp: byte_classes)

lemma lower_byte_lead [simp]:
  "lower_byte (CHR 0xC4) = CHR 0xC4" "lower_byte (CHR 0xE2) = CHR 0xE2"
  by (simp_all add: lower_byte_def is_upper_def)

lemma not_ascii_lead [simp]: "\<not> is_ascii (CHR 0xC4)" "\<not> is_ascii (CHR 0xE2)"
  by (simp_all add: is_ascii_def)

lemma ToLower_eq_map:
  assumes "CHR ''i'' \<notin> set w" "CHR ''k'' \<notin> set w" "list_all is_ascii w"
  shows "ToLower s = w \<longleftrightarrow> map lower_byte s = w"
  using assms
proof (induction s arbitrary: w rule: ToLower.induct)
  case (2 a b c s)
  consider (i) "a = CHR 0xC4 \<and> b = CHR 0xB0"
    | (k) "a = CHR 0xE2 \<and> b = CHR 0x84 \<and> c = CHR 0xAA"
    | (other) "\<not> (a = CHR 0xC4 \<and> b = CHR 0xB0)" "\<not> (a = CHR 0xE2 \<and> b = CHR 0x84 \<and> c = CHR 0xAA)"
    by blast
  then show ?case
  proof cases
    case other
    then have "ToLower (a # b # c # s) = lower_byte a # ToLower (b # c # s)" by simp
    with other "2.IH"(3) "2.prems" show ?thesis
      by (cases w) (auto simp del: ToLower.simps)
  qed (use "2.prems" in auto)
next
  case (3 a b)
  then show ?case by (cases "a = CHR 0xC4 \<and> b = CHR 0xB0") auto
qed auto

section \<open>Decimal and hexadecimal digits\<close>

fun show_nat :: "nat \<Rightarrow> string" where
  "show_nat n = (if n < 10 then [char_of (48 + n)] else show_nat (n div 10) @ [char_of (48 + n mod 10)])"

declare show_nat.simps [simp del]

definition show_int :: "int \<Rightarrow> string" where
  "show_int i = (if i < 0 then CHR ''-'' # show_nat (nat (- i)) else show_nat (nat i))"

definition unhex :: "char \<Rightarrow> nat option" where
  "unhex c = (let n = of_char c in
     if is_digit c then Some (n - 48)
     else if 65 \<le> n \<and> n \<le> 70 then Some (n - 55)
     else if 97 \<le> n \<and> n \<le> 102 then Some (n - 87) else None)"

lemma last_digit: "n mod 10 \<le> 9" "\<not> 10 \<le> n mod 10" for n :: nat
  by presburger+

lemma show_nat_chars: "list_all is_digit (show_nat n) \<and> show_nat n \<noteq> []"
proof (induction n rule: show_nat.induct)
  case (1 n)
  then show ?case
    by (simp add: show_nat.simps [of n] is_digit_def take_bit_nat_eq_self last_digit)
qed

lemma show_nat_hd: "hd (show_nat n) = CHR ''0'' \<longleftrightarrow> n = 0"
proof (induction n rule: show_nat.induct)
  case (1 n)
  then show ?case
    using show_nat_chars [of "n div 10"]
    by (auto simp: show_nat.simps [of n] char_of_eq_iff take_bit_nat_eq_self hd_append)
qed

section \<open>Go errors\<close>

text \<open>
  \<open>ErrorString\<close> is the value of \<open>errors.New\<close> or an error that comes from outside the repository
  (the driver, the operating system, a context). \<open>Errorf\<close> is the value of \<open>fmt.Errorf\<close>.
\<close>

datatype go_error =
    ErrorString string
  | Errorf string "fmt_arg list"
and fmt_arg =
    ArgStr string
  | ArgInt int
  | ArgErr go_error
  | ArgErrs "go_error list"

type_synonym 'a go = "go_error + 'a"

text \<open>The verbs of a format string, in order: the byte after each percent sign.\<close>

fun verbs :: "string \<Rightarrow> string" where
  "verbs [] = []"
| "verbs [c] = []"
| "verbs (c # v # s) =
     (if c = CHR ''%'' then (if v = CHR ''%'' then verbs s else v # verbs s) else verbs (v # s))"

fun wrapped :: "char \<times> fmt_arg \<Rightarrow> go_error option" where
  "wrapped (v, ArgErr e) = (if v = CHR ''w'' then Some e else None)"
| "wrapped (v, a) = None"

text \<open>\<open>errors.Unwrap\<close> on a value of \<open>fmt.Errorf\<close> with a single \<open>%w\<close>.\<close>

definition unwrap :: "go_error \<Rightarrow> go_error option" where
  "unwrap e = (case e of ErrorString s \<Rightarrow> None
     | Errorf t args \<Rightarrow>
         (case List.map_filter wrapped (zip (verbs t) args) of [w] \<Rightarrow> Some w | _ \<Rightarrow> None))"

lemma unwrap_ErrorString [simp]: "unwrap (ErrorString s) = None"
  by (simp add: unwrap_def)

lemma unwrap_Errorf: "verbs t = [v, CHR ''w''] \<Longrightarrow> unwrap (Errorf t [ArgStr s, ArgErr e]) = Some e"
  by (simp add: unwrap_def List.map_filter_simps)

section \<open>Effects\<close>

text \<open>The SQL statements of the store. Their text is a constant of the program; a constructor stands
  for one of them.\<close>

datatype sql =
    SqlStanza | SqlClusterName | SqlDatabases | SqlServerInfo | SqlAvailableExtensions
  | SqlFunctions | SqlSequences | SqlInstalledExtensions | SqlSchemas | SqlTables

text \<open>What a worker does to the world, in the order in which it does it.\<close>

datatype event =
    EvAcquire string          \<comment> \<open>\<open>coordinator.Acquire\<close> returned nil for this database\<close>
  | EvRelease string          \<comment> \<open>\<open>coordinator.Release\<close>\<close>
  | EvPoolNew string          \<comment> \<open>\<open>pgxpool.New\<close> succeeded for this connection string\<close>
  | EvPoolClose string        \<comment> \<open>\<open>pool.Close\<close>\<close>
  | EvQuery string sql        \<comment> \<open>\<open>pool.Query\<close> succeeded: connection string, SQL\<close>
  | EvRowsClose string sql    \<comment> \<open>\<open>rows.Close\<close>\<close>

type_synonym 'a eff = "event list \<times> 'a"

definition pure :: "'a \<Rightarrow> 'e list \<times> 'a" where
  "pure a = ([], a)"

definition emit :: "'e \<Rightarrow> 'e list \<times> 'a \<Rightarrow> 'e list \<times> 'a" where
  "emit e m = (e # fst m, snd m)"

definition defer_ev :: "'e \<Rightarrow> 'e list \<times> 'a \<Rightarrow> 'e list \<times> 'a" where
  "defer_ev e m = (fst m @ [e], snd m)"

lemma eff_simps [simp]:
  "fst (pure a) = []" "snd (pure a) = a"
  "fst (emit e m) = e # fst m" "snd (emit e m) = snd m"
  "fst (defer_ev e m) = fst m @ [e]" "snd (defer_ev e m) = snd m"
  by (simp_all add: pure_def emit_def defer_ev_def)

section \<open>Generic lemmas\<close>

lemma list_all_Inr_conv:
  "(\<forall>x \<in> set xs. \<exists>y. x = Inr y) \<longleftrightarrow> (\<exists>ys. xs = map Inr ys)"
proof
  assume "\<forall>x \<in> set xs. \<exists>y. x = Inr y"
  then show "\<exists>ys. xs = map Inr ys"
    by (induction xs) (auto, metis list.simps(9))
qed auto

lemma ex_map_Inr_iff:
  fixes f :: "'c \<Rightarrow> 'a + 'b"
  shows "(\<exists>vs. map f xs = map Inr vs) \<longleftrightarrow> (\<forall>x \<in> set xs. \<not> isl (f x))"
proof -
  have "(\<exists>z. y = Inr z) \<longleftrightarrow> \<not> isl y" for y :: "'a + 'b"
    by (cases y) auto
  then show ?thesis
    using list_all_Inr_conv [of "map f xs"] by simp
qed

lemma takeWhile_all_dropWhile:
  "list_all P xs \<Longrightarrow> (ys = [] \<or> \<not> P (hd ys)) \<Longrightarrow>
     takeWhile P (xs @ ys) = xs \<and> dropWhile P (xs @ ys) = ys"
  by (induction xs) (cases ys; auto)+

lemma sum_list_update_less:
  fixes f :: "'a \<Rightarrow> nat"
  assumes "i < length xs" "f y < f (xs ! i)"
  shows "sum_list (map f (xs[i := y])) < sum_list (map f xs)"
  using assms
proof (induction xs arbitrary: i)
  case (Cons x xs)
  then show ?case by (cases i) auto
qed simp

section \<open>Transition systems\<close>

text \<open>
  The contract of a state machine and what follows from it, shared by the machines of the
  development: an invariant that the steps keep holds in every reachable state; with a rank that
  every step lowers and a step out of every state that is not final, every run ends, and it can
  only end in a final state.
\<close>

locale machine =
  fixes step :: "'s \<Rightarrow> 's \<Rightarrow> bool" and inv :: "'s \<Rightarrow> bool"
  assumes inv_step: "inv s \<Longrightarrow> step s t \<Longrightarrow> inv t"
begin

lemma inv_steps: "step\<^sup>*\<^sup>* s t \<Longrightarrow> inv s \<Longrightarrow> inv t"
  by (induction rule: rtranclp_induct) (auto intro: inv_step)

end

locale terminating_machine = machine step inv
  for step :: "'s \<Rightarrow> 's \<Rightarrow> bool" and inv :: "'s \<Rightarrow> bool" +
  fixes rank :: "'s \<Rightarrow> nat" and final :: "'s \<Rightarrow> bool"
  assumes rank_step: "inv s \<Longrightarrow> step s t \<Longrightarrow> rank t < rank s"
    and progress: "inv s \<Longrightarrow> \<not> final s \<Longrightarrow> \<exists>t. step s t"
begin

lemma run_length: "(step ^^ n) s t \<Longrightarrow> inv s \<Longrightarrow> n + rank t \<le> rank s"
proof (induction n arbitrary: t)
  case (Suc n)
  then obtain u where u: "(step ^^ n) s u" "step u t"
    by auto
  then have "inv u"
    using inv_steps Suc.prems(2) by (metis relpowp_imp_rtranclp)
  with u Suc show ?case
    using rank_step [of u t] by fastforce
qed simp

lemma stuck_final: "inv s \<Longrightarrow> \<nexists>t. step s t \<Longrightarrow> final s"
  using progress by blast

lemma no_infinite_run:
  assumes "inv (f 0)"
  shows "\<not> (\<forall>i. step (f i) (f (Suc i)))"
proof
  assume run: "\<forall>i. step (f i) (f (Suc i))"
  have "(step ^^ i) (f 0) (f i)" for i
    by (induction i) (use run in auto)
  then have "Suc (rank (f 0)) + rank (f (Suc (rank (f 0)))) \<le> rank (f 0)"
    using run_length assms by blast
  then show False by simp
qed

lemma reaches_final: "inv s \<Longrightarrow> \<exists>t. step\<^sup>*\<^sup>* s t \<and> final t"
proof (induction "rank s" arbitrary: s rule: less_induct)
  case less
  show ?case
  proof (cases "final s")
    case False
    then obtain u where "step s u"
      using progress less.prems by blast
    then have "\<exists>t. step\<^sup>*\<^sup>* u t \<and> final t"
      using less rank_step inv_step by blast
    with \<open>step s u\<close> show ?thesis
      by (meson converse_rtranclp_into_rtranclp)
  qed blast
qed

end

end
