(* ===== verification/Go_Json.thy ===== *)
theory Go_Json
  imports Go_Prelude
begin

text \<open>
  The syntax half of the standard library's \<open>encoding/json\<close> (Go 1.25), as far as \<open>json.Unmarshal\<close>
  uses it: the tokens of a JSON text, the unquoting of strings (escapes, surrogate pairs, bytes that
  are not UTF-8) and the scanner with its stack of open arrays and objects and its nesting limit.
  A number is kept as its literal text, since what it means depends on the destination.

  The second part is a printer for JSON values and the proof that the scanner reads back what it
  prints; it is the specification the users of \<open>json.Unmarshal\<close> are proved against.
\<close>

section \<open>UTF-8\<close>

definition byte :: "char \<Rightarrow> nat" where
  "byte c = of_char c"

definition in_range :: "nat \<Rightarrow> nat \<Rightarrow> string \<Rightarrow> nat \<Rightarrow> bool" where
  "in_range lo hi s i \<longleftrightarrow> i < length s \<and> lo \<le> byte (s ! i) \<and> byte (s ! i) \<le> hi"

abbreviation continuation :: "string \<Rightarrow> nat \<Rightarrow> bool" where
  "continuation \<equiv> in_range 0x80 0xBF"

text \<open>\<open>utf8.DecodeRune\<close>: the length of the encoded code point at the start of the bytes, \<open>0\<close> if they do not
  start with one (overlong forms, surrogates and values above U+10FFFF are not code points).\<close>

definition two_bytes :: "string \<Rightarrow> bool" where
  "two_bytes s \<longleftrightarrow> in_range 0xC2 0xDF s 0 \<and> continuation s 1"

definition three_bytes :: "string \<Rightarrow> bool" where
  "three_bytes s \<longleftrightarrow>
     (in_range 0xE0 0xE0 s 0 \<and> in_range 0xA0 0xBF s 1 \<or> in_range 0xE1 0xEC s 0 \<and> continuation s 1 \<or>
      in_range 0xED 0xED s 0 \<and> in_range 0x80 0x9F s 1 \<or> in_range 0xEE 0xEF s 0 \<and> continuation s 1) \<and>
     continuation s 2"

definition four_bytes :: "string \<Rightarrow> bool" where
  "four_bytes s \<longleftrightarrow>
     (in_range 0xF0 0xF0 s 0 \<and> in_range 0x90 0xBF s 1 \<or> in_range 0xF1 0xF3 s 0 \<and> continuation s 1 \<or>
      in_range 0xF4 0xF4 s 0 \<and> in_range 0x80 0x8F s 1) \<and>
     continuation s 2 \<and> continuation s 3"

definition rune_len :: "string \<Rightarrow> nat" where
  "rune_len s =
     (if in_range 0x00 0x7F s 0 then 1
      else if two_bytes s then 2
      else if three_bytes s then 3
      else if four_bytes s then 4
      else 0)"

definition replacement :: string where
  "replacement = [CHR 0xEF, CHR 0xBF, CHR 0xBD]"

text \<open>\<open>utf8.EncodeRune\<close>.\<close>

definition encode_rune :: "nat \<Rightarrow> string" where
  "encode_rune r =
     (if r < 0x80 then [char_of r]
      else if r < 0x800 then [char_of (0xC0 + r div 64), char_of (0x80 + r mod 64)]
      else if r < 0x10000
      then [char_of (0xE0 + r div 4096), char_of (0x80 + r div 64 mod 64), char_of (0x80 + r mod 64)]
      else [char_of (0xF0 + r div 262144), char_of (0x80 + r div 4096 mod 64),
            char_of (0x80 + r div 64 mod 64), char_of (0x80 + r mod 64)])"

section \<open>Strings\<close>

definition simple_escape :: "char \<Rightarrow> char option" where
  "simple_escape e =
     map_of [(CHR 0x22, CHR 0x22), (CHR 0x5C, CHR 0x5C), (CHR ''/'', CHR ''/''),
       (CHR ''b'', CHR 0x08), (CHR ''f'', CHR 0x0C), (CHR ''n'', CHR 0x0A), (CHR ''r'', CHR 0x0D),
       (CHR ''t'', CHR 0x09)] e"

fun getu4 :: "string \<Rightarrow> nat option" where
  "getu4 (a # b # c # d # s) =
     (case (unhex a, unhex b, unhex c, unhex d) of
        (Some h1, Some h2, Some h3, Some h4) \<Rightarrow> Some (((h1 * 16 + h2) * 16 + h3) * 16 + h4)
      | _ \<Rightarrow> None)"
| "getu4 s = None"

text \<open>What a \<open>\u\<close> escape with the code unit \<open>r\<close> stands for, and the bytes that remain: the first half of a
  surrogate pair takes the escape that follows it; half a pair becomes U+FFFD.\<close>

definition unquote_u :: "nat \<Rightarrow> string \<Rightarrow> string \<times> string" where
  "unquote_u r rest =
     (if 0xD800 \<le> r \<and> r < 0xE000 then
        (case rest of
           b # u # s \<Rightarrow>
             (if b = CHR 0x5C \<and> u = CHR ''u'' then
                (case getu4 s of
                   Some r2 \<Rightarrow>
                     (if r < 0xDC00 \<and> 0xDC00 \<le> r2 \<and> r2 < 0xE000
                      then (encode_rune ((r - 0xD800) * 1024 + (r2 - 0xDC00) + 0x10000), drop 4 s)
                      else (replacement, rest))
                 | None \<Rightarrow> (replacement, rest))
              else (replacement, rest))
         | _ \<Rightarrow> (replacement, rest))
      else (encode_rune r, rest))"

lemma length_unquote_u: "length (snd (unquote_u r rest)) \<le> length rest"
  by (auto simp: unquote_u_def split: list.splits option.splits)

definition prepend :: "'a list \<Rightarrow> ('a list \<times> 'b) option \<Rightarrow> ('a list \<times> 'b) option" where
  "prepend xs r = map_option (\<lambda>(ys, b). (xs @ ys, b)) r"

lemma prepend_cong [fundef_cong]: "xs = ys \<Longrightarrow> r = r' \<Longrightarrow> prepend xs r = prepend ys r'"
  by simp

text \<open>The string after an opening quote: its value and the text after the closing quote.\<close>

function lex_str :: "string \<Rightarrow> (string \<times> string) option" where
  "lex_str [] = None"
| "lex_str (c # t) =
     (if c = CHR 0x22 then Some ([], t)
      else if c = CHR 0x5C then
        (case t of
           [] \<Rightarrow> None
         | e # u \<Rightarrow>
           (if e = CHR ''u'' then
              (case getu4 u of
                 None \<Rightarrow> None
               | Some r \<Rightarrow> prepend (fst (unquote_u r (drop 4 u))) (lex_str (snd (unquote_u r (drop 4 u)))))
            else (case simple_escape e of None \<Rightarrow> None | Some b \<Rightarrow> prepend [b] (lex_str u))))
      else if byte c < 0x20 then None
      else if rune_len (c # t) = 0 then prepend replacement (lex_str t)
      else prepend (take (rune_len (c # t)) (c # t)) (lex_str (drop (rune_len (c # t)) (c # t))))"
  by pat_completeness auto
termination
proof (relation "measure length", goal_cases)
  case (2 c t e u r)
  then show ?case
    using length_unquote_u [of r "drop 4 u"] by simp
qed auto

declare lex_str.simps [simp del]

section \<open>Numbers\<close>

definition num_char :: "char \<Rightarrow> bool" where
  "num_char c \<longleftrightarrow> is_digit c \<or> c \<in> set ''+-.eE''"

definition valid_exp :: "string \<Rightarrow> bool" where
  "valid_exp s =
     (case s of [] \<Rightarrow> True
      | e # t \<Rightarrow> (e = CHR ''e'' \<or> e = CHR ''E'') \<and>
          (let u = (case t of g # u \<Rightarrow> if g = CHR ''+'' \<or> g = CHR ''-'' then u else t | [] \<Rightarrow> [])
           in u \<noteq> [] \<and> list_all is_digit u))"

definition valid_frac :: "string \<Rightarrow> bool" where
  "valid_frac s =
     (case s of
        c # t \<Rightarrow> if c = CHR ''.'' then takeWhile is_digit t \<noteq> [] \<and> valid_exp (dropWhile is_digit t)
                 else valid_exp s
      | [] \<Rightarrow> True)"

definition valid_number :: "string \<Rightarrow> bool" where
  "valid_number s =
     (let t = (case s of g # u \<Rightarrow> if g = CHR ''-'' then u else s | [] \<Rightarrow> []) in
      case t of [] \<Rightarrow> False
      | c # u \<Rightarrow> if c = CHR ''0'' then valid_frac u
                 else is_digit c \<and> valid_frac (dropWhile is_digit u))"

section \<open>Tokens\<close>

datatype token =
    LBrace | RBrace | LBracket | RBracket | Colon | Comma
  | TokNull | TokBool bool | TokNum string | TokStr string

definition is_space :: "char \<Rightarrow> bool" where
  "is_space c \<longleftrightarrow> c = CHR '' '' \<or> c = CHR 0x09 \<or> c = CHR 0x0D \<or> c = CHR 0x0A"

definition punctuation :: "char \<Rightarrow> token option" where
  "punctuation c = map_of [(CHR 0x7B, LBrace), (CHR 0x7D, RBrace), (CHR 0x5B, LBracket),
     (CHR 0x5D, RBracket), (CHR 0x3A, Colon), (CHR 0x2C, Comma)] c"

text \<open>Every successful step of the string lexer ends it or leaves a shorter text.\<close>

lemma prepend_Some_iff [simp]:
  "prepend xs r = Some (v, b) \<longleftrightarrow> (\<exists>ys. r = Some (ys, b) \<and> v = xs @ ys)"
  by (auto simp: prepend_def)

lemma lex_str_Cons_Some:
  assumes "lex_str (c # t) = Some (v, r)"
  shows "r = t \<or> (\<exists>u w. length u \<le> length t \<and> lex_str u = Some (w, r))"
proof -
  have "\<exists>u w. length u \<le> length t \<and> lex_str u = Some (w, r)" if "lex_str u = Some (w, r)" "length u \<le> length t"
    for u w
    using that by blast
  moreover have "length (drop (rune_len (c # t)) (c # t)) \<le> length t" if "rune_len (c # t) \<noteq> 0"
    using that by simp
  moreover have "length (snd (unquote_u k (drop 4 u))) \<le> length t" if "t = e # u" for e u k
    using that length_unquote_u [of k "drop 4 u"] by simp
  ultimately show ?thesis
    using assms unfolding lex_str.simps(2) [of c t]
    by (auto split: if_splits list.splits option.splits simp del: drop_Cons' take_Cons')
qed

lemma length_lex_str: "lex_str s = Some (v, r) \<Longrightarrow> length r < length s"
proof (induction "length s" arbitrary: s v rule: less_induct)
  case less
  show ?case
  proof (cases s)
    case (Cons c t)
    with less.prems consider "r = t" | u w where "length u \<le> length t" "lex_str u = Some (w, r)"
      using lex_str_Cons_Some by blast
    then show ?thesis
    proof cases
      case 2
      with less.hyps [of u w] Cons show ?thesis by simp
    qed (simp add: Cons)
  qed (use less in \<open>simp add: lex_str.simps\<close>)
qed

definition add_token :: "token \<Rightarrow> token list option \<Rightarrow> token list option" where
  "add_token t ts = map_option (\<lambda>ts. t # ts) ts"

lemma add_token_cong [fundef_cong]: "t = t' \<Longrightarrow> ts = ts' \<Longrightarrow> add_token t ts = add_token t' ts'"
  by simp

text \<open>The lexer. A number ends at the first byte that cannot belong to one.\<close>

function lex_json :: "string \<Rightarrow> token list option" where
  "lex_json [] = Some []"
| "lex_json (c # t) =
     (if is_space c then lex_json t
      else (case punctuation c of
          Some p \<Rightarrow> add_token p (lex_json t)
        | None \<Rightarrow>
          if c = CHR 0x22 then
            (case lex_str t of
               None \<Rightarrow> None
             | Some r \<Rightarrow> add_token (TokStr (fst r)) (lex_json (snd r)))
          else if c = CHR ''n'' \<and> take 3 t = ''ull'' then add_token TokNull (lex_json (drop 3 t))
          else if c = CHR ''t'' \<and> take 3 t = ''rue'' then add_token (TokBool True) (lex_json (drop 3 t))
          else if c = CHR ''f'' \<and> take 4 t = ''alse'' then add_token (TokBool False) (lex_json (drop 4 t))
          else if (is_digit c \<or> c = CHR ''-'') \<and> valid_number (c # takeWhile num_char t)
          then add_token (TokNum (c # takeWhile num_char t)) (lex_json (dropWhile num_char t))
          else None))"
  by pat_completeness auto
termination
  by (relation "measure length")
    (auto simp: less_Suc_eq_le length_dropWhile_le dest: length_lex_str)

declare lex_json.simps(2) [simp del]

section \<open>Values\<close>

datatype json =
    JNull | JBool bool | JNum string | JStr string | JArr "json list" | JObj "(string \<times> json) list"

text \<open>The scanner: what it expects next, and the stack of open containers (\<open>parseState\<close> in the source, which
  here also holds the part of the value read so far).\<close>

datatype mode = AtValue | AtElemOrEnd | AtKeyOrEnd | AtKey | AtColon | AtEnd json

datatype frame =
    InArray "json list"                          \<comment> \<open>\<open>parseArrayValue\<close>\<close>
  | InKey "(string \<times> json) list"               \<comment> \<open>\<open>parseObjectKey\<close>\<close>
  | InMember "(string \<times> json) list" string     \<comment> \<open>\<open>parseObjectValue\<close>\<close>

definition maxNestingDepth :: nat where
  "maxNestingDepth = 10000"

definition push_state :: "mode \<Rightarrow> frame \<Rightarrow> frame list \<Rightarrow> (mode \<times> frame list) option" where
  "push_state m f st = (if length st < maxNestingDepth then Some (m, f # st) else None)"

fun begin_value :: "token \<Rightarrow> frame list \<Rightarrow> (mode \<times> frame list) option" where
  "begin_value TokNull st = Some (AtEnd JNull, st)"
| "begin_value (TokBool b) st = Some (AtEnd (JBool b), st)"
| "begin_value (TokNum n) st = Some (AtEnd (JNum n), st)"
| "begin_value (TokStr v) st = Some (AtEnd (JStr v), st)"
| "begin_value LBracket st = push_state AtElemOrEnd (InArray []) st"
| "begin_value LBrace st = push_state AtKeyOrEnd (InKey []) st"
| "begin_value _ st = None"

definition scan_step :: "token \<Rightarrow> mode \<Rightarrow> frame list \<Rightarrow> (mode \<times> frame list) option" where
  "scan_step t m st =
     (case m of
        AtValue \<Rightarrow> begin_value t st
      | AtElemOrEnd \<Rightarrow>
          if t = RBracket then (case st of InArray js # st' \<Rightarrow> Some (AtEnd (JArr js), st') | _ \<Rightarrow> None)
          else begin_value t st
      | AtKeyOrEnd \<Rightarrow>
          (case st of
             InKey ms # st' \<Rightarrow>
               (case t of
                  RBrace \<Rightarrow> Some (AtEnd (JObj ms), st')
                | TokStr k \<Rightarrow> Some (AtColon, InMember ms k # st')
                | _ \<Rightarrow> None)
           | _ \<Rightarrow> None)
      | AtKey \<Rightarrow>
          (case st of
             InKey ms # st' \<Rightarrow> (case t of TokStr k \<Rightarrow> Some (AtColon, InMember ms k # st') | _ \<Rightarrow> None)
           | _ \<Rightarrow> None)
      | AtColon \<Rightarrow> if t = Colon then Some (AtValue, st) else None
      | AtEnd j \<Rightarrow>
          (case st of
             InArray js # st' \<Rightarrow>
               (case t of
                  Comma \<Rightarrow> Some (AtValue, InArray (js @ [j]) # st')
                | RBracket \<Rightarrow> Some (AtEnd (JArr (js @ [j])), st')
                | _ \<Rightarrow> None)
           | InMember ms k # st' \<Rightarrow>
               (case t of
                  Comma \<Rightarrow> Some (AtKey, InKey (ms @ [(k, j)]) # st')
                | RBrace \<Rightarrow> Some (AtEnd (JObj (ms @ [(k, j)])), st')
                | _ \<Rightarrow> None)
           | _ \<Rightarrow> None))"

fun scan :: "token list \<Rightarrow> mode \<Rightarrow> frame list \<Rightarrow> json option" where
  "scan [] m st = (case m of AtEnd j \<Rightarrow> if st = [] then Some j else None | _ \<Rightarrow> None)"
| "scan (t # ts) m st = (case scan_step t m st of None \<Rightarrow> None | Some (m', st') \<Rightarrow> scan ts m' st')"

definition parse_json :: "string \<Rightarrow> json option" where
  "parse_json s = (case lex_json s of None \<Rightarrow> None | Some ts \<Rightarrow> scan ts AtValue [])"

section \<open>Printing\<close>

fun intersperse_comma :: "token list list \<Rightarrow> token list" where
  "intersperse_comma [] = []"
| "intersperse_comma [ts] = ts"
| "intersperse_comma (ts # tss) = ts @ Comma # intersperse_comma tss"

fun tokens :: "json \<Rightarrow> token list" where
  "tokens JNull = [TokNull]"
| "tokens (JBool b) = [TokBool b]"
| "tokens (JNum n) = [TokNum n]"
| "tokens (JStr s) = [TokStr s]"
| "tokens (JArr js) = LBracket # intersperse_comma (map tokens js) @ [RBracket]"
| "tokens (JObj ms) =
     LBrace # intersperse_comma (map (\<lambda>m. TokStr (fst m) # Colon # tokens (snd m)) ms) @ [RBrace]"

fun depth :: "json \<Rightarrow> nat" where
  "depth (JArr js) = Suc (Max (insert 0 (set (map depth js))))"
| "depth (JObj ms) = Suc (Max (insert 0 (set (map (\<lambda>m. depth (snd m)) ms))))"
| "depth _ = 0"

subsection \<open>The scanner reads the tokens of a value\<close>

text \<open>The scanner consumes the tokens of a value that is not nested too deeply and ends with that value.\<close>

definition scans :: "json \<Rightarrow> frame list \<Rightarrow> bool" where
  "scans j st \<longleftrightarrow> (\<forall>ts. scan (tokens j @ ts) AtValue st = scan ts (AtEnd j) st)"

lemma tokens_hd: "\<exists>t ts. tokens j = t # ts \<and> t \<noteq> RBracket"
  by (cases j) auto

lemma scan_AtElemOrEnd: "scan (tokens j @ ts) AtElemOrEnd st = scan (tokens j @ ts) AtValue st"
  using tokens_hd [of j] by (auto simp: scan_step_def)

lemma scan_elems_start:
  "js \<noteq> [] \<Longrightarrow> scan (intersperse_comma (map tokens js) @ ts) AtElemOrEnd st =
    scan (intersperse_comma (map tokens js) @ ts) AtValue st"
  by (cases js; cases "tl js") (simp_all add: scan_AtElemOrEnd)

lemma scan_elems:
  assumes "js \<noteq> []" "\<And>j acc. j \<in> set js \<Longrightarrow> scans j (InArray acc # st)"
  shows "scan (intersperse_comma (map tokens js) @ RBracket # ts) AtValue (InArray acc # st) =
    scan ts (AtEnd (JArr (acc @ js))) st"
  using assms
proof (induction js arbitrary: acc)
  case (Cons j js)
  have j: "scan (tokens j @ ts') AtValue (InArray acc # st) = scan ts' (AtEnd j) (InArray acc # st)" for ts'
    using Cons.prems(2) unfolding scans_def by simp
  show ?case
  proof (cases js)
    case Nil
    then show ?thesis by (simp add: j scan_step_def)
  next
    case (Cons k ks)
    then have "intersperse_comma (map tokens (j # js)) = tokens j @ Comma # intersperse_comma (map tokens js)"
      by simp
    then show ?thesis
      using Cons.IH [of "acc @ [j]"] Cons.prems(2) Cons
      by (simp add: j scan_step_def del: intersperse_comma.simps)
  qed
qed simp

definition member_tokens :: "string \<times> json \<Rightarrow> token list" where
  "member_tokens m = TokStr (fst m) # Colon # tokens (snd m)"

lemma tokens_JObj: "tokens (JObj ms) = LBrace # intersperse_comma (map member_tokens ms) @ [RBrace]"
  by (simp add: member_tokens_def [abs_def])

lemma scan_members:
  assumes "ms \<noteq> []" "\<And>m acc k. m \<in> set ms \<Longrightarrow> scans (snd m) (InMember acc k # st)"
    and "md = AtKeyOrEnd \<or> md = AtKey"
  shows "scan (intersperse_comma (map member_tokens ms) @ RBrace # ts) md (InKey acc # st) =
    scan ts (AtEnd (JObj (acc @ ms))) st"
  using assms
proof (induction ms arbitrary: acc md)
  case (Cons m ms)
  have m: "scan (member_tokens m @ ts') md (InKey acc # st) =
      scan ts' (AtEnd (snd m)) (InMember acc (fst m) # st)" for ts'
    using Cons.prems(2) [of m] Cons.prems(3) unfolding scans_def
    by (auto simp: scan_step_def member_tokens_def)
  show ?case
  proof (cases ms)
    case Nil
    then show ?thesis using m by (simp add: scan_step_def)
  next
    case (Cons k ks)
    then have "intersperse_comma (map member_tokens (m # ms)) =
        member_tokens m @ Comma # intersperse_comma (map member_tokens ms)"
      by simp
    then show ?thesis
      using Cons.IH [of AtKey "acc @ [m]"] Cons.prems(2) Cons
      by (simp add: m scan_step_def del: intersperse_comma.simps)
  qed
qed simp

lemma depth_elem:
  "j \<in> set js \<Longrightarrow> depth j < depth (JArr js)" "m \<in> set ms \<Longrightarrow> depth (snd m) < depth (JObj ms)"
  by (simp_all add: less_Suc_eq_le)

lemma scan_tokens: "depth j + length st \<le> maxNestingDepth \<Longrightarrow> scans j st"
proof (induction j arbitrary: st)
  case (JArr js)
  have "scans j (InArray acc # st)" if "j \<in> set js" for j acc
    using JArr.IH [OF that] JArr.prems depth_elem(1) [OF that] by simp
  moreover have "length st < maxNestingDepth"
    using JArr.prems by simp
  ultimately show ?case
    using scan_elems [of js st] scan_elems_start [of js]
    by (cases "js = []") (simp_all add: scans_def scan_step_def push_state_def)
next
  case (JObj ms)
  have "scans (snd m) (InMember acc k # st)" if "m \<in> set ms" for m acc k
    using JObj.IH [of m "snd m"] JObj.prems depth_elem(2) [OF that] that by (cases m) fastforce
  moreover have "length st < maxNestingDepth"
    using JObj.prems by simp
  ultimately show ?case
    using scan_members [of ms st AtKeyOrEnd]
    by (cases "ms = []") (simp_all add: scans_def scan_step_def push_state_def tokens_JObj del: tokens.simps(6))
qed (simp_all add: scans_def scan_step_def)

subsection \<open>The lexer reads the text of a value\<close>

definition quote_byte :: "char \<Rightarrow> string" where
  "quote_byte c =
     (if c = CHR 0x22 \<or> c = CHR 0x5C then [CHR 0x5C, c]
      else if byte c < 0x20 then [CHR 0x5C, CHR ''u'', CHR ''0'', CHR ''0'', char_of (48 + byte c div 16),
          (if byte c mod 16 < 10 then char_of (48 + byte c mod 16) else char_of (87 + byte c mod 16))]
      else [c])"

definition show_str :: "string \<Rightarrow> string" where
  "show_str s = CHR 0x22 # concat (map quote_byte s) @ [CHR 0x22]"

fun show_token :: "token \<Rightarrow> string" where
  "show_token LBrace = [CHR 0x7B]"
| "show_token RBrace = [CHR 0x7D]"
| "show_token LBracket = [CHR 0x5B]"
| "show_token RBracket = [CHR 0x5D]"
| "show_token Colon = [CHR 0x3A]"
| "show_token Comma = [CHR 0x2C]"
| "show_token TokNull = ''null''"
| "show_token (TokBool b) = (if b then ''true'' else ''false'')"
| "show_token (TokNum n) = n"
| "show_token (TokStr s) = show_str s"

definition show_json :: "json \<Rightarrow> string" where
  "show_json j = concat (map show_token (tokens j))"

function utf8_ok :: "string \<Rightarrow> bool" where
  "utf8_ok [] = True"
| "utf8_ok (c # t) =
     (if rune_len (c # t) = 0 then False else utf8_ok (drop (rune_len (c # t)) (c # t)))"
  by pat_completeness auto
termination by (relation "measure length") auto

declare utf8_ok.simps(2) [simp del]

definition num_ok :: "string \<Rightarrow> bool" where
  "num_ok n \<longleftrightarrow> valid_number n \<and> list_all num_char n"

fun json_ok :: "json \<Rightarrow> bool" where
  "json_ok (JNum n) = num_ok n"
| "json_ok (JStr s) = utf8_ok s"
| "json_ok (JArr js) = list_all json_ok js"
| "json_ok (JObj ms) = list_all (\<lambda>m. utf8_ok (fst m) \<and> json_ok (snd m)) ms"
| "json_ok _ = True"

lemma in_range_take [simp]:
  "i < n \<Longrightarrow> n \<le> length s \<Longrightarrow> in_range lo hi (take n s @ u) i = in_range lo hi s i"
  by (simp add: in_range_def nth_append)

lemma in_range_length: "in_range lo hi s i \<Longrightarrow> Suc i \<le> length s"
  by (simp add: in_range_def)

lemma bytes_lengths:
  "two_bytes s \<Longrightarrow> 2 \<le> length s" "three_bytes s \<Longrightarrow> 3 \<le> length s" "four_bytes s \<Longrightarrow> 4 \<le> length s"
  by (auto simp: two_bytes_def three_bytes_def four_bytes_def in_range_def)

lemma bytes_Nil: "\<not> two_bytes []" "\<not> three_bytes []" "\<not> four_bytes []"
  using bytes_lengths [of "[]"] by auto

lemma rune_len_le: "rune_len s \<le> length s"
  using bytes_lengths [of s] by (cases s) (simp_all add: rune_len_def in_range_def bytes_Nil)

lemma bytes_first:
  "two_bytes s \<Longrightarrow> 0xC2 \<le> byte (s ! 0) \<and> byte (s ! 0) \<le> 0xDF"
  "three_bytes s \<Longrightarrow> 0xE0 \<le> byte (s ! 0) \<and> byte (s ! 0) \<le> 0xEF"
  "four_bytes s \<Longrightarrow> 0xF0 \<le> byte (s ! 0) \<and> byte (s ! 0) \<le> 0xF4"
  by (auto simp: two_bytes_def three_bytes_def four_bytes_def in_range_def)

lemma bytes_take:
  "2 \<le> length s \<Longrightarrow> two_bytes (take 2 s @ u) = two_bytes s"
  "3 \<le> length s \<Longrightarrow> three_bytes (take 3 s @ u) = three_bytes s"
  "4 \<le> length s \<Longrightarrow> four_bytes (take 4 s @ u) = four_bytes s"
  by (simp_all add: two_bytes_def three_bytes_def four_bytes_def)

text \<open>The bytes after a code point do not matter.\<close>

lemma rune_len_eqI:
  "in_range 0 0x7F s 0 \<Longrightarrow> rune_len s = 1" "two_bytes s \<Longrightarrow> rune_len s = 2"
  "three_bytes s \<Longrightarrow> rune_len s = 3" "four_bytes s \<Longrightarrow> rune_len s = 4"
  using bytes_first [of s] by (auto simp: rune_len_def in_range_def)

lemma rune_len_cases [consumes 1, case_names one two three four]:
  assumes "rune_len s \<noteq> 0"
  obtains "rune_len s = 1" "in_range 0 0x7F s 0" | "rune_len s = 2" "two_bytes s"
  | "rune_len s = 3" "three_bytes s" | "rune_len s = 4" "four_bytes s"
  using assms by (auto simp: rune_len_def split: if_splits)

lemma rune_len_take:
  assumes "rune_len s \<noteq> 0"
  shows "rune_len (take (rune_len s) s @ u) = rune_len s"
  using assms
proof (cases rule: rune_len_cases)
  case one
  then show ?thesis
    using rune_len_eqI(1) [of "take 1 s @ u"] by (simp add: in_range_def Suc_le_eq nth_append)
next
  case two
  then show ?thesis
    using rune_len_eqI(2) [of "take 2 s @ u"] bytes_take(1) bytes_lengths(1) by simp
next
  case three
  then show ?thesis
    using rune_len_eqI(3) [of "take 3 s @ u"] bytes_take(2) bytes_lengths(2) by simp
next
  case four
  then show ?thesis
    using rune_len_eqI(4) [of "take 4 s @ u"] bytes_take(3) bytes_lengths(3) by simp
qed

lemma bytes_high:
  "two_bytes s \<Longrightarrow> i < 2 \<Longrightarrow> 0x80 \<le> byte (s ! i)" "three_bytes s \<Longrightarrow> i < 3 \<Longrightarrow> 0x80 \<le> byte (s ! i)"
  "four_bytes s \<Longrightarrow> i < 4 \<Longrightarrow> 0x80 \<le> byte (s ! i)"
  by (auto simp: two_bytes_def three_bytes_def four_bytes_def in_range_def numeral_eq_Suc less_Suc_eq)

lemma quote_high: "0x80 \<le> byte c \<Longrightarrow> quote_byte c = [c]"
  by (auto simp: quote_byte_def byte_def)

lemma concat_map_single: "\<forall>c \<in> set xs. f c = [c] \<Longrightarrow> concat (map f xs) = xs"
  by (induction xs) auto

lemma quote_rune:
  assumes "rune_len s \<noteq> 0" "rune_len s \<noteq> 1"
  shows "concat (map quote_byte (take (rune_len s) s)) = take (rune_len s) s"
proof -
  have "\<forall>i < rune_len s. 0x80 \<le> byte (s ! i)"
    using assms(1) assms(2) bytes_high [of s] by (cases rule: rune_len_cases) auto
  then have "\<forall>c \<in> set (take (rune_len s) s). quote_byte c = [c]"
    using rune_len_le [of s] by (auto simp: in_set_conv_nth quote_high)
  then show ?thesis by (rule concat_map_single)
qed

lemma byte_char_of: "n < 256 \<Longrightarrow> byte (char_of n) = n"
  by (simp add: byte_def take_bit_nat_eq_self)

lemma char_of_byte [simp]: "char_of (byte c) = c"
  by (simp add: byte_def)

lemma unhex_digit: "n < 10 \<Longrightarrow> unhex (char_of (48 + n)) = Some n"
  by (simp add: unhex_def is_digit_def Let_def take_bit_nat_eq_self)

lemma unhex_letter: "10 \<le> n \<Longrightarrow> n < 16 \<Longrightarrow> unhex (char_of (87 + n)) = Some n"
  by (simp add: unhex_def is_digit_def Let_def take_bit_nat_eq_self)

lemma rune_len_ascii: "byte c < 0x80 \<Longrightarrow> rune_len (c # t) = 1"
  by (simp add: rune_len_def in_range_def)

text \<open>An escaped or plain ASCII byte is read back.\<close>

lemma lex_str_quote_ascii:
  assumes "byte c < 0x80"
  shows "lex_str (quote_byte c @ u) = prepend [c] (lex_str u)"
proof -
  consider "c = CHR 0x22" | "c = CHR 0x5C" | (ctl) "c \<noteq> CHR 0x22" "c \<noteq> CHR 0x5C" "byte c < 0x20"
    | (plain) "c \<noteq> CHR 0x22" "c \<noteq> CHR 0x5C" "\<not> byte c < 0x20"
    by blast
  then show ?thesis
  proof cases
    case ctl
    let ?h = "char_of (48 + byte c div 16)"
    let ?l = "if byte c mod 16 < 10 then char_of (48 + byte c mod 16) else char_of (87 + byte c mod 16)"
    have "unhex ?h = Some (byte c div 16)" "unhex ?l = Some (byte c mod 16)"
      using ctl(3) unhex_digit [of "byte c div 16"] unhex_digit [of "byte c mod 16"]
        unhex_letter [of "byte c mod 16"] by auto
    then have "getu4 (CHR ''0'' # CHR ''0'' # ?h # ?l # u) = Some (byte c)"
      by (simp add: unhex_def is_digit_def Let_def)
    moreover have "unquote_u (byte c) u = ([c], u)"
      using ctl(3) by (simp add: unquote_u_def encode_rune_def)
    moreover have "quote_byte c = [CHR 0x5C, CHR ''u'', CHR ''0'', CHR ''0'', ?h, ?l]"
      using ctl by (simp add: quote_byte_def)
    ultimately show ?thesis
      by (simp add: lex_str.simps(2) del: getu4.simps)
  next
    case plain
    then show ?thesis
      using assms rune_len_ascii by (simp add: quote_byte_def lex_str.simps(2))
  qed (simp_all add: quote_byte_def lex_str.simps(2) simple_escape_def)
qed

lemma lex_str_rune:
  assumes "rune_len s \<noteq> 0" "rune_len s \<noteq> 1"
  shows "lex_str (take (rune_len s) s @ u) = prepend (take (rune_len s) s) (lex_str u)"
proof -
  let ?n = "rune_len s"
  have le: "?n \<le> length s" by (rule rune_len_le)
  obtain c t where ct: "take ?n s @ u = c # t" "c = s ! 0"
    using assms(1) le by (cases s; cases ?n) auto
  have high: "0x80 \<le> byte c"
    using assms bytes_high [of s 0] ct(2) by (cases rule: rune_len_cases) auto
  then have "c \<noteq> CHR 0x22" "c \<noteq> CHR 0x5C" "\<not> byte c < 0x20"
    by (auto simp: byte_def)
  moreover have "rune_len (c # t) = ?n"
    using rune_len_take [OF assms(1), of u] ct(1) by simp
  moreover have "take ?n (c # t) = take ?n s" "drop ?n (c # t) = u"
    unfolding ct(1) [symmetric] using le by simp_all
  ultimately show ?thesis
    unfolding ct(1) lex_str.simps(2) [of c t] using assms(1) by simp
qed

lemma prepend_prepend [simp]: "prepend xs (prepend ys r) = prepend (xs @ ys) r"
  by (cases r) (auto simp: prepend_def)

lemma lex_str_quote:
  assumes "utf8_ok s"
  shows "lex_str (concat (map quote_byte s) @ u) = prepend s (lex_str u)"
  using assms
proof (induction s rule: utf8_ok.induct)
  case 1
  then show ?case by (cases "lex_str u") (auto simp: prepend_def)
next
  case (2 c t)
  let ?n = "rune_len (c # t)" let ?s = "c # t"
  have n: "?n \<noteq> 0" and ok: "utf8_ok (drop ?n ?s)"
    using "2.prems" by (auto simp: utf8_ok.simps(2) split: if_splits)
  have IH: "lex_str (concat (map quote_byte (drop ?n ?s)) @ u) = prepend (drop ?n ?s) (lex_str u)"
    by (rule "2.IH" [OF n ok])
  have split: "concat (map quote_byte ?s) = concat (map quote_byte (take ?n ?s)) @ concat (map quote_byte (drop ?n ?s))"
    by (metis append_take_drop_id concat_append map_append)
  show ?case
  proof (cases "?n = 1")
    case True
    have "byte c < 0x80"
      using n True by (cases rule: rune_len_cases) (auto simp: in_range_def)
    with True IH show ?thesis
      using lex_str_quote_ascii [of c "concat (map quote_byte t) @ u"] by simp
  next
    case False
    let ?rest = "concat (map quote_byte (drop ?n ?s)) @ u"
    have "lex_str (take ?n ?s @ ?rest) = prepend (take ?n ?s) (lex_str ?rest)"
      by (rule lex_str_rune) (use n False in simp_all)
    then show ?thesis
      unfolding split quote_rune [OF n False] using IH by (simp del: drop_Cons' take_Cons')
  qed
qed

lemma lex_str_show: "utf8_ok s \<Longrightarrow> lex_str (concat (map quote_byte s) @ CHR 0x22 # r) = Some (s, r)"
  by (simp add: lex_str_quote lex_str.simps(2) prepend_def)

text \<open>The text of a token list is read back as that token list, whatever follows it, unless it could
  continue a number.\<close>

definition lexes :: "token list \<Rightarrow> bool" where
  "lexes ts \<longleftrightarrow> (\<forall>rest. rest = [] \<or> \<not> num_char (hd rest) \<longrightarrow>
     lex_json (concat (map show_token ts) @ rest) = map_option (\<lambda>us. ts @ us) (lex_json rest))"

definition is_punct :: "token \<Rightarrow> bool" where
  "is_punct t \<longleftrightarrow> t \<in> {LBrace, RBrace, LBracket, RBracket, Colon, Comma}"

lemma lexes_Nil: "lexes []"
  by (simp add: lexes_def option.map_ident)

lemma punct_hd: "is_punct p \<Longrightarrow> \<exists>c. show_token p = [c] \<and> \<not> num_char c \<and> \<not> is_space c \<and> punctuation c = Some p"
  by (cases p) (simp_all add: is_punct_def num_char_def is_digit_def is_space_def punctuation_def)

lemma lexesD:
  "lexes ts \<Longrightarrow> rest = [] \<or> \<not> num_char (hd rest) \<Longrightarrow>
    lex_json (concat (map show_token ts) @ rest) = map_option (\<lambda>us. ts @ us) (lex_json rest)"
  unfolding lexes_def by blast

lemma lexes_punct:
  assumes "is_punct p" "lexes ts"
  shows "lexes (p # ts)"
  unfolding lexes_def
proof (intro allI impI)
  fix rest :: string
  assume "rest = [] \<or> \<not> num_char (hd rest)"
  from lexesD [OF assms(2) this]
  show "lex_json (concat (map show_token (p # ts)) @ rest) = map_option (\<lambda>us. (p # ts) @ us) (lex_json rest)"
    using punct_hd [OF assms(1)] by (auto simp: lex_json.simps(2) add_token_def option.map_comp o_def)
qed

lemma lexes_append:
  assumes "lexes xs" "is_punct p" "lexes ys"
  shows "lexes (xs @ p # ys)"
  unfolding lexes_def
proof (intro allI impI)
  fix rest :: string
  assume rest: "rest = [] \<or> \<not> num_char (hd rest)"
  let ?ys = "concat (map show_token (p # ys)) @ rest"
  have "\<not> num_char (hd ?ys)"
    using punct_hd [OF assms(2)] by auto
  then have "lex_json (concat (map show_token xs) @ ?ys) = map_option (\<lambda>us. xs @ us) (lex_json ?ys)"
    using lexesD [OF assms(1)] by blast
  moreover have "lex_json ?ys = map_option (\<lambda>us. (p # ys) @ us) (lex_json rest)"
    by (rule lexesD [OF lexes_punct [OF assms(2,3)] rest])
  ultimately show "lex_json (concat (map show_token (xs @ p # ys)) @ rest) =
      map_option (\<lambda>us. (xs @ p # ys) @ us) (lex_json rest)"
    by (simp add: option.map_comp o_def)
qed

lemma lexes_comma: "(\<And>ts. ts \<in> set tss \<Longrightarrow> lexes ts) \<Longrightarrow> lexes (intersperse_comma tss)"
  by (induction tss rule: intersperse_comma.induct)
    (auto simp: lexes_Nil is_punct_def intro!: lexes_append)

lemma lexes_literal: "lexes [TokNull]" "lexes [TokBool b]"
  by (auto simp: lexes_def lex_json.simps(2) is_space_def punctuation_def add_token_def)

lemma lexes_str: "utf8_ok s \<Longrightarrow> lexes [TokStr s]"
  by (simp add: lexes_def show_str_def lex_json.simps(2) is_space_def punctuation_def lex_str_show add_token_def)

lemma valid_number_hd: "valid_number (c # t) \<Longrightarrow> is_digit c \<or> c = CHR ''-''"
  by (auto simp: valid_number_def is_digit_def Let_def split: if_splits)

lemma lexes_num:
  assumes "num_ok n"
  shows "lexes [TokNum n]"
  unfolding lexes_def
proof (intro allI impI)
  fix rest :: string
  assume rest: "rest = [] \<or> \<not> num_char (hd rest)"
  obtain c t where n: "n = c # t"
    using assms by (cases n) (auto simp: num_ok_def valid_number_def)
  have c: "is_digit c \<or> c = CHR ''-''"
    using assms valid_number_hd unfolding n num_ok_def by blast
  have "takeWhile num_char (t @ rest) = t" "dropWhile num_char (t @ rest) = rest"
    using takeWhile_all_dropWhile [of num_char t rest] rest assms by (simp_all add: num_ok_def n)
  moreover have "\<not> is_space c" "punctuation c = None" "c \<noteq> CHR 0x22" "c \<noteq> CHR ''n''" "c \<noteq> CHR ''t''" "c \<noteq> CHR ''f''"
    using c by (auto simp: is_digit_def is_space_def punctuation_def)
  ultimately show "lex_json (concat (map show_token [TokNum n]) @ rest) = map_option (\<lambda>us. [TokNum n] @ us) (lex_json rest)"
    using c assms by (simp add: lex_json.simps(2) n add_token_def num_ok_def)
qed

lemma lexes_tokens: "json_ok j \<Longrightarrow> lexes (tokens j)"
proof (induction j)
  case (JArr js)
  then have "lexes (intersperse_comma (map tokens js))"
    by (auto intro!: lexes_comma simp: list_all_iff)
  then show ?case
    using lexes_punct [of LBracket] lexes_append [of _ RBracket "[]"]
    by (simp add: is_punct_def lexes_Nil)
next
  case (JObj ms)
  have "lexes (member_tokens m)" if "m \<in> set ms" for m
  proof -
    have "utf8_ok (fst m)" "lexes (tokens (snd m))"
      using JObj that by (auto simp: list_all_iff snds.simps)
    then show ?thesis
      using lexes_append [OF lexes_str, of "fst m" Colon] by (simp add: member_tokens_def is_punct_def)
  qed
  then have "lexes (intersperse_comma (map member_tokens ms))"
    by (auto intro!: lexes_comma)
  then show ?case
    unfolding tokens_JObj using lexes_punct [of LBrace] lexes_append [of _ RBrace "[]"]
    by (simp add: is_punct_def lexes_Nil)
qed (simp_all add: lexes_literal lexes_str lexes_num)

text \<open>Round trip: the parser reads back every value whose strings are UTF-8, whose numbers are JSON numbers
  and which is not nested too deeply.\<close>

lemma parse_show_json:
  assumes "json_ok j" "depth j \<le> maxNestingDepth"
  shows "parse_json (show_json j) = Some j"
proof -
  have "lex_json (show_json j) = Some (tokens j)"
    using lexesD [OF lexes_tokens [OF assms(1)], of "[]"] by (simp add: show_json_def)
  moreover have "scan (tokens j @ []) AtValue [] = scan [] (AtEnd j) []"
    using scan_tokens [of j "[]"] assms(2) unfolding scans_def by (metis add_0_right list.size(3))
  ultimately show ?thesis
    by (simp add: parse_json_def)
qed

end
