(* ===== verification/Go_Unmarshal.thy ===== *)
theory Go_Unmarshal
  imports Go_Json
begin

text \<open>
  The decoding half of \<open>json.Unmarshal\<close>: storing a JSON value into a Go variable, driven by the variable's
  type as the library does it by reflection.

  A type is a value of \<open>gtype\<close>, a variable's contents a value of \<open>gval\<close>. The contents before the call
  matter: a null leaves a number, string, boolean or struct as it is, a member that is repeated in an
  object is decoded on top of its earlier value, and the elements of an array are decoded on top of
  what the slice's memory holds, hidden elements past its length included.

  \<open>json.Unmarshal\<close> goes on after a value of the wrong type and returns the first such error at the
  end; every caller in the program drops the variable then, so the model stops at the first error.
  The text of the library's errors (positions, field names) is abbreviated.
\<close>

section \<open>Types and values\<close>

datatype gtype =
    GString | GBool | GUint nat | GInt nat
  | GSlice gtype | GPtr gtype | GStruct "(string \<times> gtype) list"

datatype gval =
    VString string | VBool bool | VInt int
  | VSlice "gval list" "gval list"   \<comment> \<open>the elements, and the memory between length and capacity\<close>
  | VPtr "gval option"
  | VStruct "gval list"

fun zero :: "gtype \<Rightarrow> gval" where
  "zero GString = VString []"
| "zero GBool = VBool False"
| "zero (GUint w) = VInt 0"
| "zero (GInt w) = VInt 0"
| "zero (GSlice t) = VSlice [] []"
| "zero (GPtr t) = VPtr None"
| "zero (GStruct fs) = VStruct (map (\<lambda>f. zero (snd f)) fs)"

text \<open>Readers for the parts of a value, used on values of the right type only.\<close>

fun slice_memory :: "gval \<Rightarrow> gval list" where
  "slice_memory (VSlice xs hs) = xs @ hs"
| "slice_memory _ = []"

fun struct_fields :: "gval \<Rightarrow> gval list" where
  "struct_fields (VStruct vs) = vs"
| "struct_fields _ = []"

fun target :: "gtype \<Rightarrow> gval \<Rightarrow> gval" where
  "target t (VPtr (Some v)) = v"
| "target t _ = zero t"

section \<open>Numbers\<close>

definition digit_value :: "char \<Rightarrow> nat" where
  "digit_value c = of_char c - 48"

definition decimal :: "string \<Rightarrow> nat" where
  "decimal s = foldl (\<lambda>n c. 10 * n + digit_value c) 0 s"

text \<open>\<open>strconv.ParseUint\<close> and \<open>strconv.ParseInt\<close> in base 10, without their range check: a destination of at
  most 64 bits checks its own range.\<close>

definition ParseUint :: "string \<Rightarrow> nat option" where
  "ParseUint s = (if s \<noteq> [] \<and> list_all is_digit s then Some (decimal s) else None)"

definition ParseInt :: "string \<Rightarrow> int option" where
  "ParseInt s =
     (case s of
        c # t \<Rightarrow> if c = CHR ''-'' then map_option (\<lambda>n. - int n) (ParseUint t)
                 else if c = CHR ''+'' then map_option int (ParseUint t)
                 else map_option int (ParseUint s)
      | [] \<Rightarrow> None)"

definition in_uint :: "nat \<Rightarrow> int \<Rightarrow> bool" where
  "in_uint w n \<longleftrightarrow> 0 \<le> n \<and> n < 2 ^ w"

definition in_int :: "nat \<Rightarrow> int \<Rightarrow> bool" where
  "in_int w n \<longleftrightarrow> - (2 ^ (w - 1)) \<le> n \<and> n < 2 ^ (w - 1)"

section \<open>Field names\<close>

text \<open>\<open>foldName\<close>: letters in upper case; the two code points outside ASCII that fold to an ASCII letter,
  U+017F (bytes C5 BF, to \<open>S\<close>) and U+212A (bytes E2 84 AA, to \<open>K\<close>), are replaced by it. The names of the
  program's fields are ASCII, so what happens to other code points cannot be observed.\<close>

definition upper_byte :: "char \<Rightarrow> char" where
  "upper_byte c = (if is_lower c then char_of ((of_char c :: nat) - 32) else c)"

fun foldName :: "string \<Rightarrow> string" where
  "foldName [] = []"
| "foldName (a # b # c # s) =
     (if a = CHR 0xC5 \<and> b = CHR 0xBF then CHR ''S'' # foldName (c # s)
      else if a = CHR 0xE2 \<and> b = CHR 0x84 \<and> c = CHR 0xAA then CHR ''K'' # foldName s
      else upper_byte a # foldName (b # c # s))"
| "foldName [a, b] =
     (if a = CHR 0xC5 \<and> b = CHR 0xBF then [CHR ''S''] else [upper_byte a, upper_byte b])"
| "foldName [a] = [upper_byte a]"

fun index_of :: "('a \<Rightarrow> bool) \<Rightarrow> 'a list \<Rightarrow> nat option" where
  "index_of P [] = None"
| "index_of P (x # xs) = (if P x then Some 0 else map_option Suc (index_of P xs))"

definition field_index :: "(string \<times> gtype) list \<Rightarrow> string \<Rightarrow> nat option" where
  "field_index fs key =
     (case index_of (\<lambda>f. fst f = key) fs of
        Some i \<Rightarrow> Some i
      | None \<Rightarrow> index_of (\<lambda>f. foldName (fst f) = foldName key) fs)"

section \<open>Decoding\<close>

definition type_error :: go_error where
  "type_error = ErrorString ''json: cannot unmarshal value into Go value''"

definition syntax_error :: go_error where
  "syntax_error = ErrorString ''json: syntax error''"

fun decode :: "gtype \<Rightarrow> json \<Rightarrow> gval \<Rightarrow> gval go"
  and decode_elems :: "gtype \<Rightarrow> json list \<Rightarrow> gval list \<Rightarrow> gval list go"
  and decode_members :: "(string \<times> gtype) list \<Rightarrow> (string \<times> json) list \<Rightarrow> gval list \<Rightarrow> gval list go"
where
  "decode (GPtr t) j v =
     (if j = JNull then Inr (VPtr None)
      else map_sum id (\<lambda>x. VPtr (Some x)) (decode t j (target t v)))"
| "decode (GSlice t) j v =
     (case j of
        JNull \<Rightarrow> Inr (VSlice [] [])
      | JArr js \<Rightarrow>
          if js = [] then Inr (VSlice [] [])
          else map_sum id (\<lambda>xs. VSlice xs (drop (length js) (slice_memory v)))
                 (decode_elems t js (slice_memory v))
      | _ \<Rightarrow> Inl type_error)"
| "decode (GStruct fs) j v =
     (case j of
        JNull \<Rightarrow> Inr v
      | JObj ms \<Rightarrow> map_sum id VStruct (decode_members fs ms (struct_fields v))
      | _ \<Rightarrow> Inl type_error)"
| "decode GString j v = (case j of JNull \<Rightarrow> Inr v | JStr s \<Rightarrow> Inr (VString s) | _ \<Rightarrow> Inl type_error)"
| "decode GBool j v = (case j of JNull \<Rightarrow> Inr v | JBool b \<Rightarrow> Inr (VBool b) | _ \<Rightarrow> Inl type_error)"
| "decode (GUint w) j v =
     (case j of
        JNull \<Rightarrow> Inr v
      | JNum n \<Rightarrow> (case ParseUint n of
            Some k \<Rightarrow> if in_uint w (int k) then Inr (VInt (int k)) else Inl type_error
          | None \<Rightarrow> Inl type_error)
      | _ \<Rightarrow> Inl type_error)"
| "decode (GInt w) j v =
     (case j of
        JNull \<Rightarrow> Inr v
      | JNum n \<Rightarrow> (case ParseInt n of
            Some k \<Rightarrow> if in_int w k then Inr (VInt k) else Inl type_error
          | None \<Rightarrow> Inl type_error)
      | _ \<Rightarrow> Inl type_error)"
| "decode_elems t [] old = Inr []"
| "decode_elems t (j # js) old =
     (case decode t j (case old of [] \<Rightarrow> zero t | x # xs \<Rightarrow> x) of
        Inl e \<Rightarrow> Inl e
      | Inr x \<Rightarrow> map_sum id (\<lambda>xs. x # xs) (decode_elems t js (tl old)))"
| "decode_members fs [] vs = Inr vs"
| "decode_members fs (m # ms) vs =
     (case field_index fs (fst m) of
        None \<Rightarrow> decode_members fs ms vs
      | Some i \<Rightarrow>
          (case decode (snd (fs ! i)) (snd m) (vs ! i) of
             Inl e \<Rightarrow> Inl e
           | Inr x \<Rightarrow> decode_members fs ms (vs[i := x])))"

definition Unmarshal :: "gtype \<Rightarrow> string \<Rightarrow> gval \<Rightarrow> gval go" where
  "Unmarshal t data v =
     (case parse_json data of None \<Rightarrow> Inl syntax_error | Some j \<Rightarrow> decode t j v)"

section \<open>Typing\<close>

text \<open>The invariant of a variable: its contents fit its type.\<close>

fun has_type :: "gtype \<Rightarrow> (gval \<Rightarrow> bool)" where
  "has_type GString = (\<lambda>v. \<exists>s. v = VString s)"
| "has_type GBool = (\<lambda>v. \<exists>b. v = VBool b)"
| "has_type (GUint w) = (\<lambda>v. \<exists>n. v = VInt n \<and> in_uint w n)"
| "has_type (GInt w) = (\<lambda>v. \<exists>n. v = VInt n \<and> in_int w n)"
| "has_type (GSlice t) = (\<lambda>v. \<exists>xs hs. v = VSlice xs hs \<and> (\<forall>x \<in> set xs \<union> set hs. has_type t x))"
| "has_type (GPtr t) = (\<lambda>v. v = VPtr None \<or> (\<exists>x. v = VPtr (Some x) \<and> has_type t x))"
| "has_type (GStruct fs) =
     (\<lambda>v. \<exists>vs. v = VStruct vs \<and> list_all2 (\<lambda>P x. P x) (map (\<lambda>f. has_type (snd f)) fs) vs)"

lemma has_type_struct:
  "has_type (GStruct fs) (VStruct vs) \<longleftrightarrow>
    length vs = length fs \<and> (\<forall>i < length fs. has_type (snd (fs ! i)) (vs ! i))"
  by (auto simp: list_all2_conv_all_nth)

lemma has_type_zero: "has_type t (zero t)"
proof (induction t)
  case (GStruct fs)
  have "has_type (snd f) (zero (snd f))" if "f \<in> set fs" for f
    using GStruct [of f "snd f"] that by (cases f) auto
  then show ?case
    unfolding zero.simps has_type_struct by simp
qed (auto simp: in_uint_def in_int_def)

lemma has_type_target: "has_type (GPtr t) v \<Longrightarrow> has_type t (target t v)"
  by (auto simp: has_type_zero)

lemma index_of_Some:
  "index_of P xs = Some i \<Longrightarrow> i < length xs \<and> P (xs ! i)"
  by (induction xs arbitrary: i) (auto split: if_splits)

lemma field_index_bound: "field_index fs k = Some i \<Longrightarrow> i < length fs"
  by (auto simp: field_index_def dest: index_of_Some split: option.splits)

text \<open>Decoding keeps the invariant, whatever the JSON value.\<close>

lemma map_sum_Inr_iff [simp]: "map_sum f g x = Inr y \<longleftrightarrow> (\<exists>z. x = Inr z \<and> y = g z)"
  by (cases x) auto

lemma decode_has_type:
  "decode t j v = Inr v' \<Longrightarrow> has_type t v \<Longrightarrow> has_type t v'"
  "decode_elems t js old = Inr xs \<Longrightarrow> (\<forall>x \<in> set old. has_type t x) \<Longrightarrow> \<forall>x \<in> set xs. has_type t x"
  "decode_members fs ms vs = Inr vs' \<Longrightarrow> has_type (GStruct fs) (VStruct vs) \<Longrightarrow> has_type (GStruct fs) (VStruct vs')"
proof (induction t j v and t js old and fs ms vs arbitrary: v' and xs and vs'
    rule: decode_decode_elems_decode_members.induct)
  case (1 t j v)
  then show ?case
    using has_type_target [of t v] by (auto split: if_splits)
next
  case (2 t j v)
  show ?case
  proof (cases j)
    case (JArr js)
    have "\<forall>x \<in> set (slice_memory v). has_type t x"
      using "2.prems"(2) by auto
    with 2 JArr show ?thesis
      by (auto split: if_splits dest!: in_set_dropD)
  qed (use 2 in auto)
next
  case (3 fs j v)
  then obtain vs where "v = VStruct vs" by auto
  with 3 show ?case
    by (cases j) (auto simp del: has_type.simps(7))
next
  case (9 t j js old)
  then obtain x xs' where x: "decode t j (case old of [] \<Rightarrow> zero t | x # xs \<Rightarrow> x) = Inr x" "xs = x # xs'"
      "decode_elems t js (tl old) = Inr xs'"
    by (auto split: sum.splits)
  moreover have "has_type t (case old of [] \<Rightarrow> zero t | x # xs \<Rightarrow> x)"
    using "9.prems"(2) by (cases old) (auto simp: has_type_zero)
  moreover have "\<forall>x \<in> set (tl old). has_type t x"
    using "9.prems"(2) by (cases old) auto
  ultimately show ?case
    using "9.IH" by auto
next
  case (11 fs m ms vs)
  show ?case
  proof (cases "field_index fs (fst m)")
    case (Some i)
    with 11 obtain x where x: "decode (snd (fs ! i)) (snd m) (vs ! i) = Inr x"
        "decode_members fs ms (vs[i := x]) = Inr vs'"
      by (auto split: sum.splits)
    have "i < length fs" using Some by (rule field_index_bound)
    then have "has_type (GStruct fs) (VStruct (vs[i := x]))"
      using "11.IH"(2) [OF Some x(1)] "11.prems"(2) unfolding has_type_struct
      by (auto simp: nth_list_update)
    then show ?thesis
      using "11.IH"(3) [OF Some x] by blast
  qed (use 11 in simp)
qed (auto split: json.splits option.splits if_splits)

section \<open>What a JSON value represents\<close>

text \<open>
  The declarative specification of a decoding into a fresh variable: null stands for the zero value,
  a number for its value if the destination can hold it, an array for its elements; a struct takes
  each field from the member with its name (up to case), the zero value if there is none, and does
  not depend on the other members.
\<close>

inductive represents :: "gtype \<Rightarrow> gval \<Rightarrow> json \<Rightarrow> bool" where
  rep_null: "represents t (zero t) JNull"
| rep_string: "represents GString (VString s) (JStr s)"
| rep_bool: "represents GBool (VBool b) (JBool b)"
| rep_uint: "ParseUint n = Some k \<Longrightarrow> in_uint w (int k) \<Longrightarrow> represents (GUint w) (VInt (int k)) (JNum n)"
| rep_int: "ParseInt n = Some k \<Longrightarrow> in_int w k \<Longrightarrow> represents (GInt w) (VInt k) (JNum n)"
| rep_slice: "list_all2 (represents t) xs js \<Longrightarrow> represents (GSlice t) (VSlice xs []) (JArr js)"
| rep_ptr: "j \<noteq> JNull \<Longrightarrow> represents t v j \<Longrightarrow> represents (GPtr t) (VPtr (Some v)) j"
| rep_struct: "length vs = length fs \<Longrightarrow>
    (\<And>i m. i < length fs \<Longrightarrow> m \<in> set ms \<Longrightarrow> field_index fs (fst m) = Some i \<Longrightarrow>
       represents (snd (fs ! i)) (vs ! i) (snd m)) \<Longrightarrow>
    (\<And>i. i < length fs \<Longrightarrow> (\<forall>m \<in> set ms. field_index fs (fst m) \<noteq> Some i) \<Longrightarrow>
       vs ! i = zero (snd (fs ! i))) \<Longrightarrow>
    represents (GStruct fs) (VStruct vs) (JObj ms)"

inductive_cases represents_nullE: "represents t v JNull"
inductive_cases represents_ptrE: "represents (GPtr t) v j"
inductive_cases represents_sliceE: "represents (GSlice t) v (JArr js)"
inductive_cases represents_structE: "represents (GStruct fs) v (JObj ms)"

inductive_simps represents_scalar_simps:
  "represents GString v j" "represents GBool v j" "represents (GUint w) v j" "represents (GInt w) v j"

text \<open>No object of the value has two members with the same name, up to case.\<close>

fun no_dups :: "json \<Rightarrow> bool" where
  "no_dups (JArr js) = list_all no_dups js"
| "no_dups (JObj ms) = (distinct (map (\<lambda>m. foldName (fst m)) ms) \<and> list_all (\<lambda>m. no_dups (snd m)) ms)"
| "no_dups _ = True"

lemma field_index_fold: "field_index fs k = Some i \<Longrightarrow> foldName (fst (fs ! i)) = foldName k"
  by (auto simp: field_index_def dest: index_of_Some split: option.splits)

lemma decode_elems_iff:
  "decode_elems t js [] = Inr xs \<longleftrightarrow> list_all2 (\<lambda>x j. decode t j (zero t) = Inr x) xs js"
  by (induction js arbitrary: xs) (auto simp: list_all2_Cons2 split: sum.splits)

text \<open>The members of an object with distinct names are decoded independently.\<close>

lemma decode_members_iff:
  assumes "distinct (map (\<lambda>m. foldName (fst m)) ms)" "length vs = length fs"
  shows "decode_members fs ms vs = Inr vs' \<longleftrightarrow>
    length vs' = length fs \<and>
    (\<forall>i < length fs.
       (\<forall>m \<in> set ms. field_index fs (fst m) = Some i \<longrightarrow> decode (snd (fs ! i)) (snd m) (vs ! i) = Inr (vs' ! i)) \<and>
       ((\<forall>m \<in> set ms. field_index fs (fst m) \<noteq> Some i) \<longrightarrow> vs' ! i = vs ! i))"
  (is "?l ms vs \<longleftrightarrow> ?r ms vs")
  using assms
proof (induction ms arbitrary: vs)
  case Nil
  then show ?case by (auto intro: nth_equalityI)
next
  case (Cons m ms)
  show ?case
  proof (cases "field_index fs (fst m)")
    case None
    with Cons show ?thesis by auto
  next
    case (Some k)
    have k: "k < length fs" using Some by (rule field_index_bound)
    have other: "field_index fs (fst m') \<noteq> Some k" if "m' \<in> set ms" for m'
    proof
      assume "field_index fs (fst m') = Some k"
      then have "foldName (fst m') = foldName (fst m)"
        using Some field_index_fold by metis
      moreover have "foldName (fst m') \<in> (\<lambda>m. foldName (fst m)) ` set ms"
        using that by blast
      ultimately show False using Cons.prems(1) by simp
    qed
    show ?thesis
    proof (cases "decode (snd (fs ! k)) (snd m) (vs ! k)")
      case (Inl e)
      then show ?thesis using Some k by auto
    next
      case (Inr x)
      have "?l (m # ms) vs \<longleftrightarrow> ?r ms (vs[k := x])"
        using Cons.IH [of "vs[k := x]"] Cons.prems Some Inr by simp
      also have "\<dots> \<longleftrightarrow> ?r (m # ms) vs"
        using Some Inr k other Cons.prems(2) by (auto simp: nth_list_update)
      finally show ?thesis .
    qed
  qed
qed

lemma represents_ptr_iff:
  "represents (GPtr t) v j \<longleftrightarrow>
    (if j = JNull then v = VPtr None else (\<exists>x. v = VPtr (Some x) \<and> represents t x j))"
  by (auto elim: represents_ptrE intro: represents.intros rep_null [of "GPtr t", simplified])

lemma represents_null_iff: "represents t v JNull \<longleftrightarrow> v = zero t"
  by (auto elim: represents_nullE intro: rep_null)

lemma represents_slice_iff:
  "represents (GSlice t) v (JArr js) \<longleftrightarrow> (\<exists>xs. v = VSlice xs [] \<and> list_all2 (represents t) xs js)"
  by (auto elim: represents_sliceE intro: rep_slice)

lemma represents_struct_iff:
  "represents (GStruct fs) v (JObj ms) \<longleftrightarrow>
    (\<exists>vs. v = VStruct vs \<and> length vs = length fs \<and>
      (\<forall>i < length fs.
         (\<forall>m \<in> set ms. field_index fs (fst m) = Some i \<longrightarrow> represents (snd (fs ! i)) (vs ! i) (snd m)) \<and>
         ((\<forall>m \<in> set ms. field_index fs (fst m) \<noteq> Some i) \<longrightarrow> vs ! i = zero (snd (fs ! i)))))"
  by (auto elim!: represents_structE intro!: rep_struct)

inductive_simps represents_mismatch:
  "represents (GSlice t) v (JBool b)" "represents (GSlice t) v (JNum n)" "represents (GSlice t) v (JStr s)"
  "represents (GSlice t) v (JObj ms)" "represents (GStruct fs) v (JBool b)"
  "represents (GStruct fs) v (JNum n)" "represents (GStruct fs) v (JStr s)"
  "represents (GStruct fs) v (JArr js)"

lemma decode_null: "decode t JNull (zero t) = Inr (zero t)"
  by (cases t) auto

lemma decode_ptr_iff:
  "decode (GPtr t) j (zero (GPtr t)) = Inr v \<longleftrightarrow>
    (if j = JNull then v = VPtr None else (\<exists>x. v = VPtr (Some x) \<and> decode t j (zero t) = Inr x))"
  by auto

text \<open>The decoder implements the specification.\<close>

lemma decode_iff_represents:
  "no_dups j \<Longrightarrow> decode t j (zero t) = Inr v \<longleftrightarrow> represents t v j"
proof (induction j arbitrary: t v)
  case JNull
  then show ?case by (auto simp: represents_null_iff decode_null)
next
  case (JArr js)
  show ?case
  proof (induction t arbitrary: v)
    case (GSlice t)
    have "list_all2 (\<lambda>x j. decode t j (zero t) = Inr x) xs js \<longleftrightarrow> list_all2 (represents t) xs js" for xs
      using JArr by (intro list.rel_cong refl) (auto simp: list_all_iff)
    then show ?case
      by (auto simp: represents_slice_iff decode_elems_iff)
  next
    case (GPtr t)
    then show ?case unfolding decode_ptr_iff represents_ptr_iff by simp
  qed (auto simp: represents_scalar_simps represents_mismatch)
next
  case (JObj ms)
  show ?case
  proof (induction t arbitrary: v)
    case (GStruct fs)
    have sub: "decode u (snd m) (zero u) = Inr x \<longleftrightarrow> represents u x (snd m)" if "m \<in> set ms" for m u x
      using JObj.IH [of m "snd m" u x] JObj.prems that by (cases m) (auto simp: list_all_iff)
    have d: "distinct (map (\<lambda>m. foldName (fst m)) ms)"
      using JObj.prems by simp
    have "decode_members fs ms (map (\<lambda>f. zero (snd f)) fs) = Inr vs \<longleftrightarrow> represents (GStruct fs) (VStruct vs) (JObj ms)" for vs
      unfolding decode_members_iff [OF d, of "map (\<lambda>f. zero (snd f)) fs" fs, simplified] represents_struct_iff
      using sub by auto
    then show ?case
      by (auto simp: represents_struct_iff)
  next
    case (GPtr t)
    then show ?case unfolding decode_ptr_iff represents_ptr_iff by simp
  qed (auto simp: represents_scalar_simps represents_mismatch)
next
  case (JBool b)
  show ?case
    by (induction t arbitrary: v)
      (auto simp: represents_scalar_simps represents_mismatch represents_ptr_iff)
next
  case (JNum n)
  show ?case
    by (induction t arbitrary: v)
      (auto simp: represents_scalar_simps represents_mismatch represents_ptr_iff split: option.splits)
next
  case (JStr s)
  show ?case
    by (induction t arbitrary: v)
      (auto simp: represents_scalar_simps represents_mismatch represents_ptr_iff)
qed

text \<open>A value that something represents fits its type and has no hidden slice memory.\<close>

fun no_hidden :: "gval \<Rightarrow> bool" where
  "no_hidden (VSlice xs hs) = (hs = [] \<and> list_all no_hidden xs)"
| "no_hidden (VPtr p) = (case p of None \<Rightarrow> True | Some v \<Rightarrow> no_hidden v)"
| "no_hidden (VStruct vs) = list_all no_hidden vs"
| "no_hidden _ = True"

lemma no_hidden_zero: "no_hidden (zero t)"
  by (induction t) (auto simp: list_all_iff)

lemma represents_shape: "represents t v j \<Longrightarrow> has_type t v \<and> no_hidden v"
proof (induction rule: represents.induct)
  case (rep_slice t xs js)
  then show ?case
    by (auto simp: list_all2_conv_all_nth list_all_length in_set_conv_nth)
next
  case (rep_struct vs fs ms)
  have "has_type (snd (fs ! i)) (vs ! i) \<and> no_hidden (vs ! i)" if "i < length fs" for i
    using rep_struct that has_type_zero no_hidden_zero by (cases "\<exists>m \<in> set ms. field_index fs (fst m) = Some i") auto
  then show ?case
    using rep_struct(1) unfolding has_type_struct by (simp add: list_all_length)
qed (auto simp: has_type_zero no_hidden_zero)

text \<open>The same for texts: the text is JSON and represents the value; no object in it repeats a name.\<close>

definition describes :: "gtype \<Rightarrow> gval \<Rightarrow> string \<Rightarrow> bool" where
  "describes t v data = (case parse_json data of None \<Rightarrow> False | Some j \<Rightarrow> represents t v j)"

definition single_names :: "string \<Rightarrow> bool" where
  "single_names data = (case parse_json data of None \<Rightarrow> True | Some j \<Rightarrow> no_dups j)"

section \<open>The contract of a Go type\<close>

text \<open>
  A type of the program that is decoded from JSON: its descriptor, and the two directions between its
  values and the contents of a variable. From the laws it follows what decoding into a fresh variable
  of the type returns. The laws pass from a type to its slices and its pointers.
\<close>

locale go_type =
  fixes t :: gtype and to_go :: "'a \<Rightarrow> gval" and of_go :: "gval \<Rightarrow> 'a"
  assumes to_go_type [simp]: "has_type t (to_go x)"
    and to_go_hidden [simp]: "no_hidden (to_go x)"
    and of_to [simp]: "of_go (to_go x) = x"
    and to_of [simp]: "has_type t v \<Longrightarrow> no_hidden v \<Longrightarrow> to_go (of_go v) = v"
begin

lemma decode_of_go_iff:
  assumes "no_dups j"
  shows "map_sum id of_go (decode t j (zero t)) = Inr x \<longleftrightarrow> represents t (to_go x) j"
proof
  assume "map_sum id of_go (decode t j (zero t)) = Inr x"
  then obtain v where "represents t v j" "x = of_go v"
    using decode_iff_represents [OF assms] by auto
  then show "represents t (to_go x) j"
    using represents_shape to_of by metis
next
  assume "represents t (to_go x) j"
  then show "map_sum id of_go (decode t j (zero t)) = Inr x"
    using decode_iff_represents [OF assms, of t "to_go x"] of_to by auto
qed

lemma Unmarshal_of_go_iff:
  assumes "single_names data"
  shows "map_sum id of_go (Unmarshal t data (zero t)) = Inr x \<longleftrightarrow> describes t (to_go x) data"
  using decode_of_go_iff assms by (auto simp: Unmarshal_def single_names_def describes_def split: option.splits)

end

fun slice_elems :: "gval \<Rightarrow> gval list" where
  "slice_elems (VSlice xs hs) = xs"
| "slice_elems _ = []"

fun ptr_target :: "gval \<Rightarrow> gval option" where
  "ptr_target (VPtr p) = p"
| "ptr_target _ = None"

definition slice_to :: "('a \<Rightarrow> gval) \<Rightarrow> 'a list \<Rightarrow> gval" where
  "slice_to f xs = VSlice (map f xs) []"

definition slice_of :: "(gval \<Rightarrow> 'a) \<Rightarrow> gval \<Rightarrow> 'a list" where
  "slice_of f v = map f (slice_elems v)"

definition ptr_to :: "('a \<Rightarrow> gval) \<Rightarrow> 'a option \<Rightarrow> gval" where
  "ptr_to f x = VPtr (map_option f x)"

definition ptr_of :: "(gval \<Rightarrow> 'a) \<Rightarrow> gval \<Rightarrow> 'a option" where
  "ptr_of f v = map_option f (ptr_target v)"

lemma go_type_slice:
  assumes "go_type t f g"
  shows "go_type (GSlice t) (slice_to f) (slice_of g)"
proof -
  note laws = go_type.to_go_type [OF assms] go_type.to_go_hidden [OF assms] go_type.of_to [OF assms]
  have "map f (map g xs) = xs" if "\<forall>x \<in> set xs. has_type t x" "list_all no_hidden xs" for xs
    using go_type.to_of [OF assms] that by (induction xs) auto
  then show ?thesis
    by unfold_locales (auto simp: slice_to_def slice_of_def laws list_all_iff o_def)
qed

lemma go_type_ptr:
  assumes "go_type t f g"
  shows "go_type (GPtr t) (ptr_to f) (ptr_of g)"
proof -
  note laws = go_type.to_go_type [OF assms] go_type.to_go_hidden [OF assms] go_type.of_to [OF assms]
  show ?thesis
  proof
    show "has_type (GPtr t) (ptr_to f x)" "no_hidden (ptr_to f x)" "ptr_of g (ptr_to f x) = x" for x
      by (cases x; simp add: ptr_to_def ptr_of_def laws)+
    show "ptr_to f (ptr_of g v) = v" if "has_type (GPtr t) v" "no_hidden v" for v
      using that go_type.to_of [OF assms] by (auto simp: ptr_to_def ptr_of_def)
  qed
qed

text \<open>The basic types.\<close>

fun string_of :: "gval \<Rightarrow> string" where
  "string_of (VString s) = s"
| "string_of _ = []"

fun bool_of :: "gval \<Rightarrow> bool" where
  "bool_of (VBool b) = b"
| "bool_of _ = False"

fun int_of :: "gval \<Rightarrow> int" where
  "int_of (VInt n) = n"
| "int_of _ = 0"

definition uint_to :: "'w::len word \<Rightarrow> gval" where
  "uint_to x = VInt (uint x)"

definition sint_to :: "'w::len word \<Rightarrow> gval" where
  "sint_to x = VInt (sint x)"

definition word_of :: "gval \<Rightarrow> 'w::len word" where
  "word_of v = word_of_int (int_of v)"

interpretation go_string: go_type GString VString string_of
  by unfold_locales auto

interpretation go_bool: go_type GBool VBool bool_of
  by unfold_locales auto

lemma go_type_uint: "go_type (GUint LENGTH('w)) (uint_to :: 'w::len word \<Rightarrow> gval) word_of"
  by unfold_locales (auto simp: uint_to_def word_of_def in_uint_def uint_word_of_int)

lemma go_type_int: "go_type (GInt LENGTH('w)) (sint_to :: 'w::len word \<Rightarrow> gval) word_of"
  by unfold_locales (auto simp: sint_to_def word_of_def in_int_def sint_sbintrunc'
      signed_take_bit_int_eq_self intro: sint_ge [simplified] sint_lt [simplified])

interpretation go_uint8: go_type "GUint 8" "uint_to :: u8 \<Rightarrow> gval" word_of
  using go_type_uint [where 'w = 8] by simp

interpretation go_uint32: go_type "GUint 32" "uint_to :: u32 \<Rightarrow> gval" word_of
  using go_type_uint [where 'w = 32] by simp

interpretation go_uint64: go_type "GUint 64" "uint_to :: u64 \<Rightarrow> gval" word_of
  using go_type_uint [where 'w = 64] by simp

interpretation go_int64: go_type "GInt 64" "sint_to :: i64 \<Rightarrow> gval" word_of
  using go_type_int [where 'w = 64] by simp

lemma has_type_GStruct:
  "has_type (GStruct fs) v \<longleftrightarrow> (\<exists>vs. v = VStruct vs \<and> list_all2 (\<lambda>f x. has_type (snd f) x) fs vs)"
  by (simp add: list_all2_map1)

text \<open>How to show the laws for a struct type, from those of its fields.\<close>

definition field :: "gval \<Rightarrow> nat \<Rightarrow> gval" where
  "field v i = struct_fields v ! i"

lemmas go_struct_simps = field_def has_type_GStruct list_all2_Cons1

interpretation go_strings: go_type "GSlice GString" "slice_to VString" "slice_of string_of"
  by (rule go_type_slice) (rule go_string.go_type_axioms)

section \<open>Decimal numbers\<close>

lemma decimal_append: "decimal (s @ [c]) = 10 * decimal s + digit_value c"
  by (simp add: decimal_def)

lemma digit_char: "d < 10 \<Longrightarrow> is_digit (char_of (48 + d)) \<and> digit_value (char_of (48 + d)) = d"
  by (simp add: is_digit_def digit_value_def take_bit_nat_eq_self)

lemma show_nat_digits: "list_all is_digit (show_nat n) \<and> show_nat n \<noteq> [] \<and> decimal (show_nat n) = n"
proof (induction n rule: show_nat.induct)
  case (1 n)
  show ?case
  proof (cases "n < 10")
    case True
    then have "show_nat n = [] @ [char_of (48 + n)]"
      by (simp add: show_nat.simps [of n])
    with True digit_char show ?thesis
      by (simp only: decimal_append) (simp add: decimal_def)
  next
    case False
    then have "show_nat n = show_nat (n div 10) @ [char_of (48 + n mod 10)]"
      by (simp add: show_nat.simps [of n])
    with 1 False digit_char [of "n mod 10"] show ?thesis
      by (simp add: decimal_append)
  qed
qed

lemma ParseUint_show_nat: "ParseUint (show_nat n) = Some n"
  using show_nat_digits [of n] by (simp add: ParseUint_def)

lemma ParseInt_show_int: "ParseInt (show_int i) = Some i"
proof (cases "i < 0")
  case False
  obtain c t where ct: "show_nat (nat i) = c # t" "is_digit c"
    using show_nat_digits [of "nat i"] by (cases "show_nat (nat i)") auto
  then have "c \<noteq> CHR ''-''" "c \<noteq> CHR ''+''"
    by (auto simp: is_digit_def)
  with False ct show ?thesis
    using ParseUint_show_nat [of "nat i"] by (simp add: ParseInt_def show_int_def)
qed (simp add: ParseInt_def show_int_def ParseUint_show_nat)

text \<open>A decimal numeral without leading zeros is a JSON number.\<close>

lemma valid_number_digits:
  assumes "is_digit c" "list_all is_digit u" "c = CHR ''0'' \<Longrightarrow> u = []"
  shows "valid_number (c # u)" "valid_number (CHR ''-'' # c # u)"
proof -
  have "dropWhile is_digit u = []" "c \<noteq> CHR ''-''"
    using assms by (auto simp: list_all_iff is_digit_def)
  then show "valid_number (c # u)" "valid_number (CHR ''-'' # c # u)"
    using assms by (auto simp: valid_number_def valid_frac_def simp del: dropWhile_eq_Nil_conv)
qed

lemma num_ok_show_int: "num_ok (show_int i)"
proof -
  have "valid_number (show_nat n) \<and> valid_number (CHR ''-'' # show_nat n)" for n
  proof -
    obtain c u where c: "show_nat n = c # u"
      using show_nat_digits [of n] by (cases "show_nat n") auto
    moreover have "u = []" if "c = CHR ''0''"
    proof -
      have "n = 0" using show_nat_hd [of n] c that by simp
      then show ?thesis using c by (simp add: show_nat.simps [of 0])
    qed
    ultimately show ?thesis
      using valid_number_digits show_nat_digits [of n] by simp
  qed
  moreover have "list_all num_char (show_nat n)" for n
    using show_nat_digits [of n] by (auto simp: list_all_iff num_char_def)
  ultimately show ?thesis
    by (simp add: num_ok_def show_int_def num_char_def)
qed

section \<open>Writing values\<close>

text \<open>A JSON value for every value of a type, in the shape \<open>json.Marshal\<close> gives it; the counterpart of
  \<open>Unmarshal\<close> in the round trips of the program's types.\<close>

fun marshal :: "gtype \<Rightarrow> (gval \<Rightarrow> json)" where
  "marshal GString = (\<lambda>v. case v of VString s \<Rightarrow> JStr s | _ \<Rightarrow> JNull)"
| "marshal GBool = (\<lambda>v. case v of VBool b \<Rightarrow> JBool b | _ \<Rightarrow> JNull)"
| "marshal (GUint w) = (\<lambda>v. case v of VInt n \<Rightarrow> JNum (show_int n) | _ \<Rightarrow> JNull)"
| "marshal (GInt w) = (\<lambda>v. case v of VInt n \<Rightarrow> JNum (show_int n) | _ \<Rightarrow> JNull)"
| "marshal (GSlice t) = (\<lambda>v. case v of VSlice xs hs \<Rightarrow> JArr (map (marshal t) xs) | _ \<Rightarrow> JNull)"
| "marshal (GPtr t) = (\<lambda>v. case v of VPtr (Some x) \<Rightarrow> marshal t x | _ \<Rightarrow> JNull)"
| "marshal (GStruct fs) = (\<lambda>v. JObj (map2 (\<lambda>f x. (fst f, snd f x))
     (map (\<lambda>f. (fst f, marshal (snd f))) fs) (struct_fields v)))"

text \<open>Values without hidden slice memory whose strings are UTF-8.\<close>

fun clean :: "gval \<Rightarrow> bool" where
  "clean (VString s) = utf8_ok s"
| "clean (VSlice xs hs) = (hs = [] \<and> list_all clean xs)"
| "clean (VPtr p) = (case p of None \<Rightarrow> True | Some v \<Rightarrow> clean v)"
| "clean (VStruct vs) = list_all clean vs"
| "clean _ = True"

text \<open>Types whose field names are UTF-8 and differ by more than case, and which do not point to pointers.\<close>

fun type_ok :: "gtype \<Rightarrow> bool" where
  "type_ok (GSlice t) = type_ok t"
| "type_ok (GPtr t) = (type_ok t \<and> (\<exists>fs. t = GStruct fs))"
| "type_ok (GStruct fs) = (distinct (map (\<lambda>f. foldName (fst f)) fs) \<and>
     list_all (\<lambda>f. utf8_ok (fst f) \<and> type_ok (snd f)) fs)"
| "type_ok _ = True"

fun type_depth :: "gtype \<Rightarrow> nat" where
  "type_depth (GSlice t) = Suc (type_depth t)"
| "type_depth (GPtr t) = type_depth t"
| "type_depth (GStruct fs) = Suc (Max (insert 0 (set (map (\<lambda>f. type_depth (snd f)) fs))))"
| "type_depth _ = 0"

lemma index_of_nth:
  "i < length xs \<Longrightarrow> P (xs ! i) \<Longrightarrow> (\<And>k. k < i \<Longrightarrow> \<not> P (xs ! k)) \<Longrightarrow> index_of P xs = Some i"
proof (induction xs arbitrary: i)
  case (Cons x xs)
  show ?case
  proof (cases i)
    case (Suc k)
    then have "index_of P xs = Some k"
      using Cons.prems by (intro Cons.IH) force+
    then show ?thesis
      using Suc Cons.prems(3) [of 0] by simp
  qed (use Cons.prems in simp)
qed simp

lemma field_index_own:
  assumes "distinct (map (\<lambda>f. foldName (fst f)) fs)" "i < length fs"
  shows "field_index fs (fst (fs ! i)) = Some i"
proof -
  have "fst (fs ! k) \<noteq> fst (fs ! i)" if "k < i" for k
    using assms that nth_eq_iff_index_eq [OF assms(1), of k i] by auto
  then have "index_of (\<lambda>f. fst f = fst (fs ! i)) fs = Some i"
    using assms(2) by (intro index_of_nth) auto
  then show ?thesis by (simp add: field_index_def)
qed

lemma marshal_struct:
  "has_type (GStruct fs) (VStruct vs) \<Longrightarrow>
    marshal (GStruct fs) (VStruct vs) = JObj (map (\<lambda>i. (fst (fs ! i), marshal (snd (fs ! i)) (vs ! i))) [0..<length fs])"
  unfolding has_type_struct by (auto intro!: nth_equalityI)

lemma represents_marshal:
  "type_ok t \<Longrightarrow> has_type t v \<Longrightarrow> clean v \<Longrightarrow> represents t v (marshal t v)"
proof (induction t arbitrary: v)
  case (GSlice t)
  then show ?case
    by (auto simp: represents_slice_iff list_all2_conv_all_nth list_all_length)
next
  case (GPtr t)
  then show ?case
    by (auto simp: represents_ptr_iff)
next
  case (GStruct fs)
  then obtain vs where v: "v = VStruct vs" by auto
  have len: "length vs = length fs" and ty: "\<And>i. i < length fs \<Longrightarrow> has_type (snd (fs ! i)) (vs ! i)"
    using GStruct.prems(2) unfolding v has_type_struct by auto
  have sub: "represents (snd (fs ! i)) (vs ! i) (marshal (snd (fs ! i)) (vs ! i))" if "i < length fs" for i
  proof -
    have "type_ok (snd (fs ! i))" "clean (vs ! i)" "fs ! i \<in> set fs"
      using GStruct.prems(1,3) that len by (simp_all add: v list_all_length)
    then show ?thesis
      using GStruct.IH [of "fs ! i" "snd (fs ! i)" "vs ! i"] ty [OF that] by (cases "fs ! i") auto
  qed
  have "field_index fs (fst (fs ! i)) = Some i" if "i < length fs" for i
    using field_index_own GStruct.prems(1) that by simp
  then show ?case
    unfolding v marshal_struct [OF GStruct.prems(2) [unfolded v]] represents_struct_iff
    using sub len by auto
next
  case (GUint w)
  then obtain n where n: "v = VInt n" "in_uint w n" by auto
  then have "ParseUint (show_int n) = Some (nat n)" "int (nat n) = n"
    by (auto simp: show_int_def in_uint_def ParseUint_show_nat)
  then show ?case
    using n rep_uint [of "show_int n" "nat n" w] by simp
qed (auto intro!: rep_string rep_bool rep_int [OF ParseInt_show_int])

lemma marshal_props:
  "type_ok t \<Longrightarrow> has_type t v \<Longrightarrow> clean v \<Longrightarrow>
    json_ok (marshal t v) \<and> no_dups (marshal t v) \<and> depth (marshal t v) \<le> type_depth t"
proof (induction t arbitrary: v)
  case (GSlice t)
  then obtain xs where v: "v = VSlice xs []" by auto
  have "json_ok (marshal t x) \<and> no_dups (marshal t x) \<and> depth (marshal t x) \<le> type_depth t" if "x \<in> set xs" for x
    using GSlice that by (auto simp: v list_all_iff)
  then show ?case
    by (auto simp: v list_all_iff)
next
  case (GStruct fs)
  then obtain vs where v: "v = VStruct vs" by auto
  have len: "length vs = length fs" and ty: "\<And>i. i < length fs \<Longrightarrow> has_type (snd (fs ! i)) (vs ! i)"
    using GStruct.prems(2) unfolding v has_type_struct by auto
  let ?m = "\<lambda>i. marshal (snd (fs ! i)) (vs ! i)"
  have sub: "utf8_ok (fst (fs ! i)) \<and> json_ok (?m i) \<and> no_dups (?m i) \<and>
      depth (?m i) \<le> Max (insert 0 (set (map (\<lambda>f. type_depth (snd f)) fs)))" if "i < length fs" for i
  proof -
    have i: "utf8_ok (fst (fs ! i))" "type_ok (snd (fs ! i))" "clean (vs ! i)" "fs ! i \<in> set fs"
      using GStruct.prems(1,3) that len by (simp_all add: v list_all_length)
    moreover have "type_depth (snd (fs ! i)) \<le> Max (insert 0 (set (map (\<lambda>f. type_depth (snd f)) fs)))"
      using i(4) by (intro Max_ge) auto
    ultimately show ?thesis
      using GStruct.IH [of "fs ! i" "snd (fs ! i)" "vs ! i"] ty [OF that] by (cases "fs ! i") auto
  qed
  have "map (\<lambda>i. foldName (fst (fs ! i))) [0..<length fs] = map (\<lambda>f. foldName (fst f)) fs"
    by (auto intro: nth_equalityI)
  then have "distinct (map (\<lambda>i. foldName (fst (fs ! i))) [0..<length fs])"
    using GStruct.prems(1) by simp
  with sub show ?case
    unfolding v marshal_struct [OF GStruct.prems(2) [unfolded v]] by (auto simp: list_all_iff o_def)
qed (auto simp: num_ok_show_int)

text \<open>Round trip: what is written can be read back into a fresh variable.\<close>

lemma Unmarshal_marshal:
  assumes "type_ok t" "has_type t v" "clean v" "type_depth t \<le> maxNestingDepth"
  shows "Unmarshal t (show_json (marshal t v)) (zero t) = Inr v"
proof -
  note props = marshal_props [OF assms(1-3)]
  then have "parse_json (show_json (marshal t v)) = Some (marshal t v)"
    using assms(4) by (intro parse_show_json) auto
  then show ?thesis
    using props represents_marshal [OF assms(1-3)] decode_iff_represents by (simp add: Unmarshal_def)
qed

end
