(* ===== verification/Go_Regexp.thy ===== *)
theory Go_Regexp
  imports Go_Prelude
begin

text \<open>
  The part of Go's \<open>regexp\<close> package the program uses. Both patterns of the program are anchored at
  the start of the text, use byte classes, greedy bounded repetition and at most one capture group.
  \<open>rx_match\<close> lists the ways an expression can match a prefix of the text in the order of preference
  of the leftmost-first semantics: the first element is the match the package returns.
\<close>

datatype rx =
    Cls "char \<Rightarrow> bool"
  | Rep "char \<Rightarrow> bool" nat "nat option"   \<comment> \<open>greedy \<open>{lo,hi}\<close>; \<open>None\<close>: no upper bound\<close>
  | Cat rx rx
  | Cap rx
  | EndText                                      \<comment> \<open>\<open>$\<close> without the multi-line flag\<close>

definition rep_max :: "(char \<Rightarrow> bool) \<Rightarrow> nat option \<Rightarrow> string \<Rightarrow> nat" where
  "rep_max p hi s = (let n = length (takeWhile p s) in case hi of None \<Rightarrow> n | Some h \<Rightarrow> min h n)"

fun rx_match :: "rx \<Rightarrow> string \<Rightarrow> (string \<times> string list \<times> string) list" where
  "rx_match (Cls p) s = (case s of [] \<Rightarrow> [] | c # r \<Rightarrow> if p c then [([c], [], r)] else [])"
| "rx_match (Rep p lo hi) s =
     map (\<lambda>k. (take k s, [], drop k s)) (rev [lo..<Suc (rep_max p hi s)])"
| "rx_match (Cat r1 r2) s =
     concat (map (\<lambda>(m1, c1, s1). map (\<lambda>(m2, c2, s2). (m1 @ m2, c1 @ c2, s2)) (rx_match r2 s1))
       (rx_match r1 s))"
| "rx_match (Cap r) s = map (\<lambda>(m, c, s'). (m, m # c, s')) (rx_match r s)"
| "rx_match EndText s = (if s = [] then [([], [], [])] else [])"

fun rx_lit :: "string \<Rightarrow> rx \<Rightarrow> rx" where
  "rx_lit [] r = r"
| "rx_lit (c # cs) r = Cat (Cls (\<lambda>d. d = c)) (rx_lit cs r)"

text \<open>\<open>FindStringSubmatch\<close>: the match and its groups; \<open>None\<close> is the nil slice. \<open>MatchString\<close>.\<close>

definition FindStringSubmatch :: "rx \<Rightarrow> string \<Rightarrow> string list option" where
  "FindStringSubmatch r s = (case rx_match r s of [] \<Rightarrow> None | (m, c, _) # _ \<Rightarrow> Some (m # c))"

definition MatchString :: "rx \<Rightarrow> string \<Rightarrow> bool" where
  "MatchString r s \<longleftrightarrow> rx_match r s \<noteq> []"

section \<open>Lemmas\<close>

text \<open>Soundness of every listed match: it is a prefix of the text, and the rest is what is left.\<close>

lemma rx_match_prefix: "(m, c, r) \<in> set (rx_match x s) \<Longrightarrow> s = m @ r"
  by (induction x arbitrary: s m c r) (fastforce split: list.splits if_splits)+

lemma rx_match_lit:
  "rx_match (rx_lit p r) s =
     (if take (length p) s = p
      then map (\<lambda>(m, c, s'). (p @ m, c, s')) (rx_match r (drop (length p) s)) else [])"
proof (induction p arbitrary: s)
  case Nil
  then show ?case by simp
next
  case (Cons a p)
  then show ?case by (cases s) (auto simp: case_prod_unfold)
qed

lemma rep_max_None [simp]: "rep_max p None s = length (takeWhile p s)"
  by (simp add: rep_max_def)

lemma rep_max_Some [simp]: "rep_max p (Some h) s = min h (length (takeWhile p s))"
  by (simp add: rep_max_def)

lemma rev_upt_first:
  "lo \<le> n \<Longrightarrow> rev [lo..<Suc n] = n # rev [lo..<n]"
  by simp

lemma take_takeWhile_length: "take (length (takeWhile p s)) s = takeWhile p s"
  by (induction s) auto

lemma drop_takeWhile_length: "drop (length (takeWhile p s)) s = dropWhile p s"
  by (induction s) auto

lemma drop_within_takeWhile:
  assumes "k < length (takeWhile p s)"
  obtains c r where "drop k s = c # r" and "p c"
proof -
  have k: "k < length s"
    using assms length_takeWhile_le [of p s] by linarith
  have "s ! k = takeWhile p s ! k"
    using assms by (simp add: takeWhile_nth)
  then have "p (s ! k)"
    using assms by (metis nth_mem set_takeWhileD)
  moreover have "drop k s = s ! k # drop (Suc k) s"
    using k by (simp add: Cons_nth_drop_Suc)
  ultimately show ?thesis
    using that by blast
qed

text \<open>A repetition of a class followed by a byte outside the class: only the longest repetition
  can succeed, so the expression is deterministic at this point.\<close>

lemma rx_match_Rep_then_Cls:
  assumes "\<And>c. p c \<Longrightarrow> \<not> q c"
  shows "rx_match (Cat (Rep p lo None) (Cat (Cls q) x)) s =
    (if lo \<le> length (takeWhile p s)
     then map (\<lambda>(m, c, r). (takeWhile p s @ m, c, r)) (rx_match (Cat (Cls q) x) (dropWhile p s))
     else [])"
proof (cases "lo \<le> length (takeWhile p s)")
  case True
  let ?n = "length (takeWhile p s)"
  let ?f = "\<lambda>k. map (\<lambda>(m2, c2, s2). (take k s @ m2, [] @ c2, s2)) (rx_match (Cat (Cls q) x) (drop k s))"
  have none: "?f k = []" if "k < ?n" for k
  proof -
    from that obtain c r where "drop k s = c # r" and "p c"
      by (rule drop_within_takeWhile)
    with assms show ?thesis by simp
  qed
  have "rx_match (Cat (Rep p lo None) (Cat (Cls q) x)) s = concat (map ?f (rev [lo..<Suc ?n]))"
    by (simp add: o_def del: upt_Suc)
  also have "\<dots> = ?f ?n @ concat (map ?f (rev [lo..<?n]))"
    using True by simp
  also have "concat (map ?f (rev [lo..<?n])) = []"
    using none by (auto simp del: rx_match.simps)
  finally show ?thesis
    using True by (simp only: if_True append_Nil2 append_Nil take_takeWhile_length drop_takeWhile_length)
qed simp

text \<open>The preferred match of a greedy repetition at the end of an expression.\<close>

lemma rx_match_Rep_hd:
  "rx_match (Rep p lo None) s =
    (if lo \<le> length (takeWhile p s)
     then (takeWhile p s, [], dropWhile p s) #
       map (\<lambda>k. (take k s, [], drop k s)) (rev [lo..<length (takeWhile p s)])
     else [])"
  by (simp add: take_takeWhile_length drop_takeWhile_length)

end
