(* ===== verification/Domain_Types.thy ===== *)
theory Domain_Types
  imports Go_Regexp
begin

text \<open>
  The domain types of \<open>internal/extractor/types/types.go\<close>, the messages of
  \<open>api/extractor/v1/extractor.proto\<close> the handlers build, and the conversions between them.
  A struct is a record whose fields carry a prefix (the source reuses \<open>Name\<close> and \<open>Oid\<close> in most
  structs); a slice is a list (nil and the empty slice are the same list: no code of the program
  tells them apart); a \<open>*string\<close> is a \<open>string option\<close>. The elements of a slice of pointers are options
  where they are decoded from JSON, which may contain null; everywhere else the program appends the
  address of a variable, so the pointers are not nil and the list has the structs themselves.

  The locale \<open>lossless\<close> is the contract of a conversion: a client of the gRPC API can recover the
  domain value from the message. It is interpreted for every conversion that satisfies it.
\<close>

section \<open>Domain types\<close>

record Database =
  db_Name :: string
  db_Oid :: u32

record PgbackrestDatabase =
  pd_Id :: u8
  pd_RepoKey :: u8

record PgbackrestRepo =
  pr_Delta :: u64
  pr_Size :: u64

record BackupSizeInfo =
  bs_Delta :: u64
  bs_Repository :: PgbackrestRepo
  bs_Size :: u64

record BackupTimestamp =
  bt_Start :: i64
  bt_Stop :: i64

record PgbackrestDb =
  pdb_Version :: string
  pdb_SystemId :: u64
  pdb_RepoKey :: u8
  pdb_Id :: u8

record Backup =
  bk_Label :: string
  bk_Type :: string
  bk_Timestamp :: BackupTimestamp
  bk_Info :: BackupSizeInfo
  bk_Database :: PgbackrestDatabase
  bk_Error :: bool

record PgbackrestInfo =
  pi_Name :: string
  pi_Backup :: "Backup list"
  pi_Db :: "PgbackrestDb list"

record ServerInfo =
  si_PgVersion :: string
  si_IsReadOnly :: string
  si_SslEnabled :: string
  si_ArchiveMode :: string
  si_DataDirectory :: string
  si_WalLevel :: string
  si_IsInRecovery :: bool
  si_TimelineID :: i8
  si_Port :: i32
  si_MaxConnections :: i32
  si_SystemIdentifier :: i64

record Schema =
  sch_Database :: string
  sch_Name :: string
  sch_Owner :: string
  sch_Oid :: u32

record InstalledExtension =
  ie_Name :: string
  ie_Version :: string
  ie_Schema :: string
  ie_Database :: string
  ie_Oid :: u32

record AvailableExtension =
  ae_Name :: string
  ae_DefaultVersion :: string

record Sequence =
  seq_Name :: string
  seq_Schema :: string
  seq_Owner :: string
  seq_Database :: string
  seq_DataType :: string
  seq_Oid :: u32

record Function =
  fn_Name :: string
  fn_Schema :: string
  fn_Owner :: string
  fn_Database :: string
  fn_Language :: string
  fn_ReturnType :: string
  fn_IdentityArguments :: string
  fn_Oid :: u32

record InheritanceRelation =
  ir_Name :: string
  ir_Oid :: u32

record TableInheritance =
  ti_ParentTables :: "InheritanceRelation option list"

record TableStats =
  ts_RowEstimate :: i64
  ts_TotalSizeBytes :: u64
  ts_HeapSizeBytes :: u64
  ts_ToastSizeBytes :: u64

record TableColumn =
  tc_Name :: string
  tc_Type :: string
  tc_NotNull :: bool
  tc_IsInherited :: bool

record TableIndex =
  ix_Name :: string
  ix_Type :: string
  ix_Definition :: string
  ix_Columns :: "string list"
  ix_SizeBytes :: u64
  ix_IsUnique :: bool
  ix_IsPrimary :: bool
  ix_IsExclusion :: bool
  ix_IsPartial :: bool
  ix_IsValid :: bool
  ix_IsInherited :: bool

record TableConstraint =
  con_Name :: string
  con_Type :: string
  con_ForeignTable :: string
  con_Definition :: string
  con_LocalColumns :: "string list"
  con_ForeignColumns :: "string list"

record Table =
  tb_Name :: string
  tb_Schema :: string
  tb_Owner :: string
  tb_Comment :: "string option"
  tb_TableColumns :: "TableColumn option list"
  tb_TableIndexes :: "TableIndex option list"
  tb_TableConstraints :: "TableConstraint option list"
  tb_Inheritance :: TableInheritance
  tb_Stats :: TableStats
  tb_Oid :: u32

record TablesInfo =
  tbi_Database :: string
  tbi_Tables :: "Table list"

section \<open>Messages of the gRPC API\<close>

record Pb_Database =
  pbdb_Name :: string
  pbdb_Oid :: u32

record Pb_BackupInfo =
  pbb_Label :: string
  pbb_Type :: string
  pbb_TimestampStart :: i64
  pbb_TimestampStop :: i64
  pbb_BackupSize :: u64
  pbb_RepoSize :: u64
  pbb_DatabaseVersion :: string
  pbb_Error :: bool
  pbb_RepoKey :: u32

record Pb_ListBackupsResponse =
  pbl_Stanza :: string
  pbl_Backups :: "Pb_BackupInfo list"

record Pb_GetServerInfoResponse =
  pbs_ClusterName :: string
  pbs_PgVersion :: string
  pbs_IsInRecovery :: bool
  pbs_IsReadOnly :: bool
  pbs_SslEnabled :: bool
  pbs_Port :: i32
  pbs_MaxConnections :: i32
  pbs_ArchiveMode :: string
  pbs_DataDirectory :: string
  pbs_SystemIdentifier :: i64
  pbs_TimelineId :: i32
  pbs_WalLevel :: string

record Pb_Schema =
  pbsch_Oid :: u32
  pbsch_Name :: string
  pbsch_Owner :: string
  pbsch_Database :: string

record Pb_InstalledExtension =
  pbie_Oid :: u32
  pbie_Name :: string
  pbie_Version :: string
  pbie_Schema :: string
  pbie_Database :: string

record Pb_AvailableExtension =
  pbae_Name :: string
  pbae_DefaultVersion :: string

record Pb_ListExtensionsResponse =
  pble_Installed :: "Pb_InstalledExtension list"
  pble_Available :: "Pb_AvailableExtension list"

record Pb_Sequence =
  pbseq_Oid :: u32
  pbseq_Name :: string
  pbseq_Schema :: string
  pbseq_Owner :: string
  pbseq_Database :: string
  pbseq_DataType :: string

record Pb_Function =
  pbfn_Oid :: u32
  pbfn_Name :: string
  pbfn_Schema :: string
  pbfn_Owner :: string
  pbfn_Database :: string
  pbfn_Language :: string
  pbfn_ReturnType :: string
  pbfn_IdentityArguments :: string

record Pb_ListDatabasesResponse =
  pbl_Databases :: "Pb_Database list"

record Pb_ListSchemasResponse =
  pbl_Schemas :: "Pb_Schema list"

record Pb_ListSequencesResponse =
  pbl_Sequences :: "Pb_Sequence list"

record Pb_ListFunctionsResponse =
  pbl_Functions :: "Pb_Function list"

record Pb_TableColumn =
  pbtc_Name :: string
  pbtc_Type :: string
  pbtc_NotNull :: bool
  pbtc_IsInherited :: bool

record Pb_TableIndex =
  pbix_Name :: string
  pbix_Type :: string
  pbix_Columns :: "string list"
  pbix_IsUnique :: bool
  pbix_IsPrimary :: bool
  pbix_IsExclusion :: bool
  pbix_IsPartial :: bool
  pbix_IsValid :: bool
  pbix_IsInherited :: bool
  pbix_SizeBytes :: u64
  pbix_Definition :: string

record Pb_TableConstraint =
  pbcon_Name :: string
  pbcon_Type :: string
  pbcon_LocalColumns :: "string list"
  pbcon_ForeignTable :: "string option"
  pbcon_ForeignColumns :: "string list"
  pbcon_Definition :: string

record Pb_TableStats =
  pbts_RowEstimate :: i64
  pbts_TotalSizeBytes :: u64
  pbts_HeapSizeBytes :: u64
  pbts_ToastSizeBytes :: u64

record Pb_InheritanceRelation =
  pbir_Name :: string
  pbir_Oid :: u32

record Pb_TableInheritance =
  pbti_ParentTables :: "Pb_InheritanceRelation list"

record Pb_Table =
  pbtb_Oid :: u32
  pbtb_Name :: string
  pbtb_Schema :: string
  pbtb_Owner :: string
  pbtb_Comment :: "string option"
  pbtb_Stats :: Pb_TableStats
  pbtb_Columns :: "Pb_TableColumn list"
  pbtb_Indexes :: "Pb_TableIndex list"
  pbtb_Constraints :: "Pb_TableConstraint list"
  pbtb_Inheritance :: Pb_TableInheritance

record Pb_DatabaseTables =
  pbdt_Database :: string
  pbdt_Tables :: "Pb_Table list"

record Pb_ListTablesResponse =
  pbl_DatabaseTables :: "Pb_DatabaseTables list"

section \<open>Parsing helpers\<close>

text \<open>\<open>pgVersionPattern\<close> is \<open>^PostgreSQL (\d+\.\d+)\<close>.\<close>

definition pgVersionPattern :: rx where
  "pgVersionPattern = rx_lit ''PostgreSQL ''
     (Cap (Cat (Rep is_digit 1 None) (Cat (Cls (\<lambda>c. c = CHR ''.'')) (Rep is_digit 1 None))))"

definition parsePgVersion :: "string \<Rightarrow> string go" where
  "parsePgVersion pgVersion =
     (case FindStringSubmatch pgVersionPattern pgVersion of
        Some (m0 # m1 # _) \<Rightarrow> Inr m1
      | _ \<Rightarrow> Inl (Errorf ''invalid PostgreSQL version string: %q'' [ArgStr pgVersion]))"

definition parsePgOnOffToBool :: "string \<Rightarrow> bool go" where
  "parsePgOnOffToBool s =
     (let l = ToLower s in
      if l = ''off'' then Inr False
      else if l = ''on'' then Inr True
      else Inl (Errorf ''could not parse as bool: %q'' [ArgStr s]))"

section \<open>Conversions to messages\<close>

definition InstalledExtension_toProto :: "InstalledExtension \<Rightarrow> Pb_InstalledExtension" where
  "InstalledExtension_toProto ins = \<lparr>pbie_Oid = ie_Oid ins, pbie_Name = ie_Name ins,
     pbie_Version = ie_Version ins, pbie_Schema = ie_Schema ins, pbie_Database = ie_Database ins\<rparr>"

definition AvailableExtension_toProto :: "AvailableExtension \<Rightarrow> Pb_AvailableExtension" where
  "AvailableExtension_toProto av =
     \<lparr>pbae_Name = ae_Name av, pbae_DefaultVersion = ae_DefaultVersion av\<rparr>"

definition ExtensionsToProto ::
  "AvailableExtension list \<Rightarrow> InstalledExtension list \<Rightarrow> Pb_ListExtensionsResponse" where
  "ExtensionsToProto avail inst =
     \<lparr>pble_Installed = map InstalledExtension_toProto inst,
      pble_Available = map AvailableExtension_toProto avail\<rparr>"

definition ServerInfoToProto :: "ServerInfo \<Rightarrow> string \<Rightarrow> Pb_GetServerInfoResponse go" where
  "ServerInfoToProto info clusterName =
     (case parsePgVersion (si_PgVersion info) of Inl err \<Rightarrow> Inl err
      | Inr pgVersion \<Rightarrow>
     (case parsePgOnOffToBool (si_IsReadOnly info) of Inl err \<Rightarrow> Inl err
      | Inr isReadOnly \<Rightarrow>
     (case parsePgOnOffToBool (si_SslEnabled info) of Inl err \<Rightarrow> Inl err
      | Inr sslEnabled \<Rightarrow>
       Inr \<lparr>pbs_ClusterName = clusterName, pbs_PgVersion = pgVersion,
            pbs_IsInRecovery = si_IsInRecovery info, pbs_IsReadOnly = isReadOnly,
            pbs_SslEnabled = sslEnabled, pbs_Port = si_Port info,
            pbs_MaxConnections = si_MaxConnections info, pbs_ArchiveMode = si_ArchiveMode info,
            pbs_DataDirectory = si_DataDirectory info,
            pbs_SystemIdentifier = si_SystemIdentifier info,
            pbs_TimelineId = scast (si_TimelineID info), pbs_WalLevel = si_WalLevel info\<rparr>)))"

definition Database_ToProto :: "Database \<Rightarrow> Pb_Database" where
  "Database_ToProto d = \<lparr>pbdb_Name = db_Name d, pbdb_Oid = db_Oid d\<rparr>"

definition Schema_ToProto :: "Schema \<Rightarrow> Pb_Schema" where
  "Schema_ToProto s = \<lparr>pbsch_Oid = sch_Oid s, pbsch_Name = sch_Name s, pbsch_Owner = sch_Owner s,
     pbsch_Database = sch_Database s\<rparr>"

definition Sequence_ToProto :: "Sequence \<Rightarrow> Pb_Sequence" where
  "Sequence_ToProto s = \<lparr>pbseq_Oid = seq_Oid s, pbseq_Name = seq_Name s,
     pbseq_Schema = seq_Schema s, pbseq_Owner = seq_Owner s, pbseq_Database = seq_Database s,
     pbseq_DataType = seq_DataType s\<rparr>"

definition Function_ToProto :: "Function \<Rightarrow> Pb_Function" where
  "Function_ToProto f = \<lparr>pbfn_Oid = fn_Oid f, pbfn_Name = fn_Name f, pbfn_Schema = fn_Schema f,
     pbfn_Owner = fn_Owner f, pbfn_Database = fn_Database f, pbfn_Language = fn_Language f,
     pbfn_ReturnType = fn_ReturnType f, pbfn_IdentityArguments = fn_IdentityArguments f\<rparr>"

definition Backup_ToProto :: "Backup \<Rightarrow> string \<Rightarrow> Pb_BackupInfo" where
  "Backup_ToProto b dbVersion = \<lparr>pbb_Label = bk_Label b, pbb_Type = bk_Type b,
     pbb_TimestampStart = bt_Start (bk_Timestamp b), pbb_TimestampStop = bt_Stop (bk_Timestamp b),
     pbb_BackupSize = bs_Size (bk_Info b), pbb_RepoSize = pr_Size (bs_Repository (bk_Info b)),
     pbb_DatabaseVersion = dbVersion, pbb_Error = bk_Error b,
     pbb_RepoKey = ucast (pd_RepoKey (bk_Database b))\<rparr>"

section \<open>Reading the server's settings\<close>

lemma pgVersion_prefix_length: "length ''PostgreSQL '' = 11"
  by simp

lemma parsePgVersion_eq:
  "parsePgVersion s =
    (let t = drop 11 s; a = takeWhile is_digit t; u = dropWhile is_digit t;
         b = takeWhile is_digit (tl u)
     in if take 11 s = ''PostgreSQL '' \<and> a \<noteq> [] \<and> u \<noteq> [] \<and> hd u = CHR ''.'' \<and> b \<noteq> []
        then Inr (a @ CHR ''.'' # b)
        else Inl (Errorf ''invalid PostgreSQL version string: %q'' [ArgStr s]))"
proof -
  let ?u = "dropWhile is_digit (drop 11 s)"
  have "rx_match (Cat (Rep is_digit 1 None) (Cat (Cls (\<lambda>c. c = CHR ''.'')) (Rep is_digit 1 None)))
      (drop 11 s) =
    (if 1 \<le> length (takeWhile is_digit (drop 11 s))
     then map (\<lambda>(m, c, r). (takeWhile is_digit (drop 11 s) @ m, c, r))
       (rx_match (Cat (Cls (\<lambda>c. c = CHR ''.'')) (Rep is_digit 1 None)) ?u) else [])"
    by (rule rx_match_Rep_then_Cls) (auto simp: is_digit_def)
  then show ?thesis
    unfolding parsePgVersion_def FindStringSubmatch_def pgVersionPattern_def
      rx_match_lit pgVersion_prefix_length rx_match.simps(4)
    by (cases ?u) (auto simp: Let_def case_prod_unfold Suc_le_eq rx_match_Rep_hd
        simp del: rx_match.simps(2) dropWhile_eq_Nil_conv)
qed

text \<open>C32: \<open>parsePgVersion\<close> returns exactly the server version: it succeeds with \<open>v\<close> if and only if
  the text is \<open>PostgreSQL \<close> followed by \<open>v\<close>, \<open>v\<close> is a non-empty run of digits, a dot and a non-empty
  run of digits, and the second run is maximal (the greedy group never cuts a minor version short).\<close>

theorem parsePgVersion_iff:
  "parsePgVersion s = Inr v \<longleftrightarrow>
    (\<exists>a b rest. v = a @ CHR ''.'' # b \<and> a \<noteq> [] \<and> b \<noteq> [] \<and> list_all is_digit (a @ b) \<and>
      s = ''PostgreSQL '' @ v @ rest \<and> (rest = [] \<or> \<not> is_digit (hd rest)))"
  (is "?l = ?r")
proof
  assume ?l
  let ?t = "drop 11 s" let ?a = "takeWhile is_digit ?t" let ?u = "dropWhile is_digit ?t"
  let ?b = "takeWhile is_digit (tl ?u)" let ?rest = "dropWhile is_digit (tl ?u)"
  from \<open>?l\<close> have h: "take 11 s = ''PostgreSQL ''" "?a \<noteq> []" "?u \<noteq> []" "hd ?u = CHR ''.''"
      "?b \<noteq> []" "v = ?a @ CHR ''.'' # ?b"
    by (auto simp: parsePgVersion_eq Let_def split: if_splits)
  have "?u = CHR ''.'' # ?b @ ?rest"
    using h(3,4) by (cases ?u) (auto simp del: dropWhile_eq_Nil_conv)
  then have "?t = v @ ?rest"
    using h(6) by (metis append_assoc append_Cons takeWhile_dropWhile_id)
  then have "s = ''PostgreSQL '' @ v @ ?rest"
    using h(1) by (metis append_take_drop_id)
  moreover have "?rest = [] \<or> \<not> is_digit (hd ?rest)"
    using hd_dropWhile by blast
  moreover have "list_all is_digit (?a @ ?b)"
    by (auto simp: list_all_iff dest: set_takeWhileD)
  ultimately show ?r
    using h by blast
next
  assume ?r
  then obtain a b rest where r: "v = a @ CHR ''.'' # b" "a \<noteq> []" "b \<noteq> []" "list_all is_digit a"
      "list_all is_digit b" "s = ''PostgreSQL '' @ v @ rest" "rest = [] \<or> \<not> is_digit (hd rest)"
    by auto
  have t: "drop 11 s = a @ CHR ''.'' # b @ rest" "take 11 s = ''PostgreSQL ''"
    using r(1,6) by simp_all
  have "takeWhile is_digit (drop 11 s) = a" "dropWhile is_digit (drop 11 s) = CHR ''.'' # b @ rest"
    unfolding t using takeWhile_all_dropWhile [OF r(4), of "CHR ''.'' # b @ rest"]
    by (simp_all add: is_digit_def)
  moreover have "takeWhile is_digit (b @ rest) = b"
    using takeWhile_all_dropWhile [OF r(5,7)] by simp
  ultimately show ?l
    using r(1-3) t(2) by (simp add: parsePgVersion_eq Let_def del: dropWhile_eq_Nil_conv)
qed

theorem parsePgVersion_iff_witness:
  "parsePgVersion ''PostgreSQL 15.13 (Debian)'' = Inr ''15.13''"
  unfolding parsePgVersion_iff
  by (intro exI [of _ "''15''"] exI [of _ "''13''"] exI [of _ "'' (Debian)''"]) (simp add: is_digit_def)

text \<open>A release without a minor number right after the major one (a beta, a release candidate, a
  development build) is not recognised.\<close>

lemma parsePgVersion_prerelease:
  assumes "list_all is_digit a" "rest = [] \<or> \<not> is_digit (hd rest) \<and> hd rest \<noteq> CHR ''.''"
  shows "parsePgVersion (''PostgreSQL '' @ a @ rest) =
    Inl (Errorf ''invalid PostgreSQL version string: %q'' [ArgStr (''PostgreSQL '' @ a @ rest)])"
proof -
  have "takeWhile is_digit (a @ rest) = a \<and> dropWhile is_digit (a @ rest) = rest"
    using assms by (intro takeWhile_all_dropWhile) auto
  then show ?thesis
    using assms(2) by (auto simp: parsePgVersion_eq Let_def simp del: dropWhile_eq_Nil_conv)
qed

text \<open>\<open>parsePgOnOffToBool\<close> accepts exactly the settings \<open>on\<close> and \<open>off\<close> in any case and maps them
  to true and false; every other string is an error.\<close>

lemma parsePgOnOffToBool_iff:
  "parsePgOnOffToBool s = Inr b \<longleftrightarrow> map lower_byte s = (if b then ''on'' else ''off'')"
proof -
  have "ToLower s = ''on'' \<longleftrightarrow> map lower_byte s = ''on''"
    by (rule ToLower_eq_map) (simp_all add: is_ascii_def)
  moreover have "ToLower s = ''off'' \<longleftrightarrow> map lower_byte s = ''off''"
    by (rule ToLower_eq_map) (simp_all add: is_ascii_def)
  ultimately show ?thesis
    by (auto simp: parsePgOnOffToBool_def Let_def)
qed


text \<open>The abstract specification of a successful conversion, over the predicates above.\<close>

definition on_off :: "string \<Rightarrow> bool \<Rightarrow> bool" where
  "on_off s b \<longleftrightarrow> map lower_byte s = (if b then ''on'' else ''off'')"

lemma sint_scast_i8_i32: "sint (scast (t :: i8) :: i32) = sint t"
  by (simp add: sint_up_scast is_up)

text \<open>A response of \<open>ServerInfoToProto\<close> exists exactly when the version and both settings can be parsed,
  and then reports them and copies every other field.\<close>

lemma ServerInfoToProto_Inr_iff:
  "ServerInfoToProto info clusterName = Inr r \<longleftrightarrow>
     parsePgVersion (si_PgVersion info) = Inr (pbs_PgVersion r) \<and>
     on_off (si_IsReadOnly info) (pbs_IsReadOnly r) \<and>
     on_off (si_SslEnabled info) (pbs_SslEnabled r) \<and>
     sint (pbs_TimelineId r) = sint (si_TimelineID info) \<and>
     pbs_ClusterName r = clusterName \<and> pbs_IsInRecovery r = si_IsInRecovery info \<and>
     pbs_Port r = si_Port info \<and> pbs_MaxConnections r = si_MaxConnections info \<and>
     pbs_ArchiveMode r = si_ArchiveMode info \<and> pbs_DataDirectory r = si_DataDirectory info \<and>
     pbs_SystemIdentifier r = si_SystemIdentifier info \<and> pbs_WalLevel r = si_WalLevel info"
proof -
  have tl: "sint (pbs_TimelineId r) = sint (si_TimelineID info) \<longleftrightarrow>
      pbs_TimelineId r = scast (si_TimelineID info)"
    by (metis sint_scast_i8_i32 signed_word_eqI)
  show ?thesis
    unfolding ServerInfoToProto_def tl on_off_def parsePgOnOffToBool_iff [symmetric]
    by (cases r) (auto split: sum.splits)
qed

section \<open>Lossless conversions\<close>

locale lossless =
  fixes to_pb :: "'a \<Rightarrow> 'b" and of_pb :: "'b \<Rightarrow> 'a"
  assumes of_to [simp]: "of_pb (to_pb x) = x"
begin

lemma inj_to_pb: "inj to_pb"
  by (metis injI of_to)

lemma map_of_to [simp]: "map of_pb (map to_pb xs) = xs"
  by (simp add: o_def)

lemma map_to_pb_inj: "map to_pb xs = map to_pb ys \<longleftrightarrow> xs = ys"
  by (metis map_of_to)

lemma distinct_map_to_pb: "distinct (map to_pb xs) \<longleftrightarrow> distinct xs"
  using inj_on_subset [OF inj_to_pb] by (auto simp: distinct_map)

lemma mset_map_to_pb: "mset (map to_pb xs) = mset (map to_pb ys) \<longleftrightarrow> mset xs = mset ys"
  by (metis map_of_to mset_map)

end

text \<open>What a client reads back from a message.\<close>

definition Database_ofProto :: "Pb_Database \<Rightarrow> Database" where
  "Database_ofProto p = \<lparr>db_Name = pbdb_Name p, db_Oid = pbdb_Oid p\<rparr>"

definition Schema_ofProto :: "Pb_Schema \<Rightarrow> Schema" where
  "Schema_ofProto p = \<lparr>sch_Database = pbsch_Database p, sch_Name = pbsch_Name p,
     sch_Owner = pbsch_Owner p, sch_Oid = pbsch_Oid p\<rparr>"

definition Sequence_ofProto :: "Pb_Sequence \<Rightarrow> Sequence" where
  "Sequence_ofProto p = \<lparr>seq_Name = pbseq_Name p, seq_Schema = pbseq_Schema p,
     seq_Owner = pbseq_Owner p, seq_Database = pbseq_Database p, seq_DataType = pbseq_DataType p,
     seq_Oid = pbseq_Oid p\<rparr>"

definition Function_ofProto :: "Pb_Function \<Rightarrow> Function" where
  "Function_ofProto p = \<lparr>fn_Name = pbfn_Name p, fn_Schema = pbfn_Schema p, fn_Owner = pbfn_Owner p,
     fn_Database = pbfn_Database p, fn_Language = pbfn_Language p,
     fn_ReturnType = pbfn_ReturnType p, fn_IdentityArguments = pbfn_IdentityArguments p,
     fn_Oid = pbfn_Oid p\<rparr>"

definition InstalledExtension_ofProto :: "Pb_InstalledExtension \<Rightarrow> InstalledExtension" where
  "InstalledExtension_ofProto p = \<lparr>ie_Name = pbie_Name p, ie_Version = pbie_Version p,
     ie_Schema = pbie_Schema p, ie_Database = pbie_Database p, ie_Oid = pbie_Oid p\<rparr>"

definition AvailableExtension_ofProto :: "Pb_AvailableExtension \<Rightarrow> AvailableExtension" where
  "AvailableExtension_ofProto p =
     \<lparr>ae_Name = pbae_Name p, ae_DefaultVersion = pbae_DefaultVersion p\<rparr>"

interpretation database_pb: lossless Database_ToProto Database_ofProto
  by unfold_locales (simp add: Database_ToProto_def Database_ofProto_def)

interpretation schema_pb: lossless Schema_ToProto Schema_ofProto
  by unfold_locales (simp add: Schema_ToProto_def Schema_ofProto_def)

interpretation sequence_pb: lossless Sequence_ToProto Sequence_ofProto
  by unfold_locales (simp add: Sequence_ToProto_def Sequence_ofProto_def)

interpretation function_pb: lossless Function_ToProto Function_ofProto
  by unfold_locales (simp add: Function_ToProto_def Function_ofProto_def)

interpretation installed_pb: lossless InstalledExtension_toProto InstalledExtension_ofProto
  by unfold_locales (simp add: InstalledExtension_toProto_def InstalledExtension_ofProto_def)

interpretation available_pb: lossless AvailableExtension_toProto AvailableExtension_ofProto
  by unfold_locales (simp add: AvailableExtension_toProto_def AvailableExtension_ofProto_def)

lemma ExtensionsToProto_inj:
  "ExtensionsToProto av inst = ExtensionsToProto av' inst' \<longleftrightarrow> av = av' \<and> inst = inst'"
  by (auto simp: ExtensionsToProto_def installed_pb.map_to_pb_inj available_pb.map_to_pb_inj)

end
