(* ===== verification/Fan_Out.thy ===== *)
theory Fan_Out
  imports Domain_Types
begin

text \<open>
  \<open>forEachDatabase\<close> of \<open>internal/extractor/store/store.go\<close>: one goroutine per database, each sends one
  result on a channel whose buffer has room for all of them; the caller receives as many results as
  there are databases and combines them.

  \<open>forEachDatabase\<close> is a function of the order in which the results arrive (a schedule). The machine
  \<open>fan_step\<close> is the concurrent program itself: goroutines that finish and send in any order, and the
  receiving loop. The main lemmas show that the machine always terminates, that no goroutine is ever
  blocked on the channel or left behind, and that what it returns is \<open>forEachDatabase\<close> at some
  schedule; the properties of \<open>forEachDatabase\<close> hold for every schedule.
\<close>

section \<open>The function\<close>

text \<open>The struct \<open>result\<close>: a worker returns either an error or its rows.\<close>

type_synonym 'a result = "'a list go"

text \<open>The receiving loop, over the results in order of arrival.\<close>

fun fan_in :: "'a result list \<Rightarrow> 'a list \<Rightarrow> go_error list \<Rightarrow> 'a list \<times> go_error list" where
  "fan_in [] results errs = (results, errs)"
| "fan_in (Inl e # rest) results errs = fan_in rest results (errs @ [e])"
| "fan_in (Inr xs # rest) results errs = fan_in rest (results @ xs) errs"

definition fan_result :: "nat \<Rightarrow> 'a list \<times> go_error list \<Rightarrow> 'a list go" where
  "fan_result n acc = (case acc of (results, errs) \<Rightarrow>
     if length errs > 0
     then Inl (Errorf ''failed to query %d/%d databases: %v''
                 [ArgInt (int (length errs)), ArgInt (int n), ArgErrs errs])
     else Inr results)"

definition forEachDatabase ::
  "nat list \<Rightarrow> Database list \<Rightarrow> (string \<Rightarrow> 'a list go) \<Rightarrow> 'a list go" where
  "forEachDatabase sched databases f =
     fan_result (length databases) (fan_in (map (\<lambda>i. f (db_Name (databases ! i))) sched) [] [])"

definition is_schedule :: "nat list \<Rightarrow> 'b list \<Rightarrow> bool" where
  "is_schedule sched xs \<longleftrightarrow> mset sched = mset [0..<length xs]"

section \<open>The concurrent program\<close>

record 'a fan =
  pending :: "nat list"        \<comment> \<open>goroutines that have not sent yet\<close>
  queue :: "'a result list"    \<comment> \<open>the buffer of \<open>resultsCh\<close>\<close>
  togo :: nat                  \<comment> \<open>iterations left of \<open>for range databases\<close>\<close>
  results :: "'a list"
  errs :: "go_error list"

definition fan_init :: "nat \<Rightarrow> 'a fan" where
  "fan_init n = \<lparr>pending = [0..<n], queue = [], togo = n, results = [], errs = []\<rparr>"

text \<open>\<open>out i\<close> is what the call of \<open>fn\<close> in goroutine \<open>i\<close> returns; \<open>cap\<close> is the capacity of the channel.\<close>

inductive fan_step :: "nat \<Rightarrow> (nat \<Rightarrow> 'a result) \<Rightarrow> 'a fan \<Rightarrow> 'a fan \<Rightarrow> bool"
  for cap :: nat and out :: "nat \<Rightarrow> 'a result" where
  send: "i \<in> set (pending s) \<Longrightarrow> length (queue s) < cap \<Longrightarrow>
    fan_step cap out s (s\<lparr>pending := remove1 i (pending s), queue := queue s @ [out i]\<rparr>)"
| recv_err: "togo s = Suc n \<Longrightarrow> queue s = Inl e # q \<Longrightarrow>
    fan_step cap out s (s\<lparr>queue := q, togo := n, errs := errs s @ [e]\<rparr>)"
| recv_ok: "togo s = Suc n \<Longrightarrow> queue s = Inr xs # q \<Longrightarrow>
    fan_step cap out s (s\<lparr>queue := q, togo := n, results := results s @ xs\<rparr>)"

definition fan_return :: "nat \<Rightarrow> 'a fan \<Rightarrow> 'a list go" where
  "fan_return n s = fan_result n (results s, errs s)"

section \<open>Lemmas on the function\<close>

fun lefts :: "('e + 'a) list \<Rightarrow> 'e list" where
  "lefts [] = []"
| "lefts (Inl e # xs) = e # lefts xs"
| "lefts (Inr a # xs) = lefts xs"

fun rights :: "('e + 'a) list \<Rightarrow> 'a list" where
  "rights [] = []"
| "rights (Inl e # xs) = rights xs"
| "rights (Inr a # xs) = a # rights xs"

lemma fan_in_eq: "fan_in rs xs es = (xs @ concat (rights rs), es @ lefts rs)"
  by (induction rs xs es rule: fan_in.induct) auto

lemma fan_in_snoc:
  "fan_in (rs @ [Inl e]) [] [] = (let (xs, es) = fan_in rs [] [] in (xs, es @ [e]))"
  "fan_in (rs @ [Inr ys]) [] [] = (let (xs, es) = fan_in rs [] [] in (xs @ ys, es))"
proof -
  have "lefts (rs @ rs') = lefts rs @ lefts rs'" "rights (rs @ rs') = rights rs @ rights rs'" for rs'
    by (induction rs rule: lefts.induct) auto
  then show "fan_in (rs @ [Inl e]) [] [] = (let (xs, es) = fan_in rs [] [] in (xs, es @ [e]))"
    "fan_in (rs @ [Inr ys]) [] [] = (let (xs, es) = fan_in rs [] [] in (xs @ ys, es))"
    by (simp_all add: fan_in_eq)
qed

lemma lefts_Nil_iff: "lefts rs = [] \<longleftrightarrow> rs = map Inr (rights rs)"
  by (induction rs rule: lefts.induct) auto

lemma mset_lefts: "mset (lefts rs) = image_mset projl (filter_mset isl (mset rs))"
  by (induction rs rule: lefts.induct) auto

lemma lefts_mset_cong: "mset rs = mset rs' \<Longrightarrow> mset (lefts rs) = mset (lefts rs')"
  by (simp add: mset_lefts)

lemma in_lefts_iff: "e \<in> set (lefts rs) \<longleftrightarrow> Inl e \<in> set rs"
  by (induction rs rule: lefts.induct) auto

text \<open>A schedule enumerates the databases in some order.\<close>

definition arrival :: "nat list \<Rightarrow> 'b list \<Rightarrow> 'b list" where
  "arrival sched xs = map (\<lambda>i. xs ! i) sched"

lemma mset_arrival: "is_schedule sched xs \<Longrightarrow> mset (arrival sched xs) = mset xs"
  by (metis arrival_def is_schedule_def map_nth mset_map)

lemma set_arrival: "is_schedule sched xs \<Longrightarrow> set (arrival sched xs) = set xs"
  using mset_arrival by (metis set_mset_mset)

lemma forEachDatabase_arrival:
  "forEachDatabase sched dbs f =
     fan_result (length dbs) (fan_in (map (\<lambda>db. f (db_Name db)) (arrival sched dbs)) [] [])"
  by (simp add: forEachDatabase_def arrival_def o_def)

lemma forEachDatabase_Inr_iff:
  "forEachDatabase sched dbs f = Inr rs \<longleftrightarrow>
    (\<exists>xss. map (\<lambda>db. f (db_Name db)) (arrival sched dbs) = map Inr xss \<and> rs = concat xss)"
proof -
  have rights: "rights (map Inr xss) = xss" for xss :: "'a list list"
    by (induction xss) auto
  have "lefts (map Inr xss) = []" for xss :: "'a list list"
    by (induction xss) auto
  then show ?thesis
    unfolding forEachDatabase_arrival fan_in_eq fan_result_def
    by (auto simp: lefts_Nil_iff rights)
qed

lemma forEachDatabase_Inl_iff:
  "forEachDatabase sched dbs f = Inl err \<longleftrightarrow>
    (let es = lefts (map (\<lambda>db. f (db_Name db)) (arrival sched dbs)) in es \<noteq> [] \<and>
      err = Errorf ''failed to query %d/%d databases: %v''
        [ArgInt (int (length es)), ArgInt (int (length dbs)), ArgErrs es])"
  by (auto simp: forEachDatabase_arrival fan_in_eq fan_result_def Let_def)

lemma forEachDatabase_ok_iff:
  assumes "is_schedule sched dbs"
  shows "(\<exists>rs. forEachDatabase sched dbs f = Inr rs) \<longleftrightarrow> (\<forall>db \<in> set dbs. \<not> isl (f (db_Name db)))"
proof -
  have s: "set (arrival sched dbs) = set dbs"
    using mset_arrival [OF assms] by (metis set_mset_mset)
  show ?thesis
    unfolding forEachDatabase_Inr_iff using s ex_map_Inr_iff [of "\<lambda>db. f (db_Name db)"] by metis
qed

section \<open>Lemmas on the concurrent program\<close>

definition fan_inv :: "nat \<Rightarrow> (nat \<Rightarrow> 'a result) \<Rightarrow> 'a fan \<Rightarrow> bool" where
  "fan_inv n out s \<longleftrightarrow> (\<exists>received queued.
     mset (received @ queued @ pending s) = mset [0..<n] \<and> queue s = map out queued \<and>
     fan_in (map out received) [] [] = (results s, errs s) \<and> togo s + length received = n)"

lemma fan_invI:
  "mset (received @ queued @ pending s) = mset [0..<n] \<Longrightarrow> queue s = map out queued \<Longrightarrow>
   fan_in (map out received) [] [] = (results s, errs s) \<Longrightarrow> togo s + length received = n \<Longrightarrow>
   fan_inv n out s"
  unfolding fan_inv_def by blast

lemma fan_inv_init: "fan_inv n out (fan_init n)"
  by (rule fan_invI [of "[]" "[]"]) (simp_all add: fan_init_def)

lemma fan_inv_step:
  assumes "fan_inv n out s" "fan_step n out s t"
  shows "fan_inv n out t"
proof -
  obtain received queued where inv: "mset (received @ queued @ pending s) = mset [0..<n]"
      "queue s = map out queued" "fan_in (map out received) [] [] = (results s, errs s)"
      "togo s + length received = n"
    using assms(1) unfolding fan_inv_def by blast
  from assms(2) show ?thesis
  proof cases
    case (send i)
    then have "mset (received @ (queued @ [i]) @ remove1 i (pending s)) = mset [0..<n]"
      using inv(1) by (simp add: add_mset_commute)
    with send inv show ?thesis
      by (intro fan_invI [of received "queued @ [i]"]) simp_all
  next
    case (recv_err m e q)
    then obtain i js where "queued = i # js" "out i = Inl e" "q = map out js"
      using inv(2) by auto
    with recv_err inv show ?thesis
      by (intro fan_invI [of "received @ [i]" js]) (simp_all add: fan_in_snoc)
  next
    case (recv_ok m xs q)
    then obtain i js where "queued = i # js" "out i = Inr xs" "q = map out js"
      using inv(2) by auto
    with recv_ok inv show ?thesis
      by (intro fan_invI [of "received @ [i]" js]) (simp_all add: fan_in_snoc)
  qed
qed

lemma fan_inv_count: "fan_inv n out s \<Longrightarrow> togo s = length (queue s) + length (pending s)"
proof -
  assume "fan_inv n out s"
  then obtain received queued where inv: "mset (received @ queued @ pending s) = mset [0..<n]"
      "queue s = map out queued" "togo s + length received = n"
    unfolding fan_inv_def by blast
  have "length (received @ queued @ pending s) = n"
    using inv(1) by (metis diff_zero length_upt size_mset)
  with inv show ?thesis by simp
qed

text \<open>The buffer has room for every result: a goroutine that has finished can always send.\<close>

lemma fan_inv_room: "fan_inv n out s \<Longrightarrow> i \<in> set (pending s) \<Longrightarrow> length (queue s) < n"
proof -
  assume inv: "fan_inv n out s" and i: "i \<in> set (pending s)"
  have "togo s \<le> n"
    using inv unfolding fan_inv_def by auto
  with fan_inv_count [OF inv] i show ?thesis
    by (cases "pending s") auto
qed

text \<open>Only the results of goroutines that have sent theirs matter.\<close>

lemma fan_inv_cong:
  assumes "fan_inv n out s" "\<And>i. i < n \<Longrightarrow> i \<notin> set (pending s) \<Longrightarrow> out i = out' i"
  shows "fan_inv n out' s"
proof -
  obtain received queued where inv: "mset (received @ queued @ pending s) = mset [0..<n]"
      "queue s = map out queued" "fan_in (map out received) [] [] = (results s, errs s)" "togo s + length received = n"
    using assms(1) unfolding fan_inv_def by blast
  have "distinct (received @ queued @ pending s)" "set (received @ queued @ pending s) = {0..<n}"
    using mset_eq_imp_distinct_iff [OF inv(1)] mset_eq_setD [OF inv(1)] by simp_all
  then have "i < n \<and> i \<notin> set (pending s)" if "i \<in> set (received @ queued)" for i
    using that by (metis Un_iff atLeastLessThan_iff disjoint_iff distinct_append set_append)
  then have "out i = out' i" if "i \<in> set (received @ queued)" for i
    using that assms(2) by blast
  then have "map out received = map out' received" "map out queued = map out' queued"
    by auto
  with inv show ?thesis
    by (intro fan_invI [of received queued]) simp_all
qed

lemma fan_inv_pending: "fan_inv n out s \<Longrightarrow> i \<in> set (pending s) \<Longrightarrow> i < n"
  unfolding fan_inv_def using mset_eq_setD by fastforce

lemma fan_inv_done:
  assumes "fan_inv n out s" "togo s = 0"
  shows "pending s = []" "queue s = []"
    and "\<exists>sched. mset sched = mset [0..<n] \<and> fan_in (map out sched) [] [] = (results s, errs s)"
proof -
  show empty: "pending s = []" "queue s = []"
    using fan_inv_count [OF assms(1)] assms(2) by simp_all
  show "\<exists>sched. mset sched = mset [0..<n] \<and> fan_in (map out sched) [] [] = (results s, errs s)"
    using assms(1) empty unfolding fan_inv_def by auto
qed

lemma fan_step_pending: "fan_step n out s t \<Longrightarrow> set (pending t) \<subseteq> set (pending s)"
  by (induction rule: fan_step.induct) (auto dest: notin_set_remove1 set_remove1_subset [THEN subsetD])

definition fan_rank :: "'a fan \<Rightarrow> nat" where
  "fan_rank s = 2 * length (pending s) + length (queue s)"

definition fan_done :: "'a fan \<Rightarrow> bool" where
  "fan_done s \<longleftrightarrow> togo s = 0"

lemma fan_progress:
  assumes "fan_inv n out s" "\<not> fan_done s"
  shows "\<exists>t. fan_step n out s t"
proof (cases "queue s")
  case Nil
  then obtain i where "i \<in> set (pending s)"
    using fan_inv_count [OF assms(1)] assms(2) by (cases "pending s") (auto simp: fan_done_def)
  then show ?thesis
    using fan_inv_room [OF assms(1)] by (blast intro: fan_step.send)
next
  case (Cons r q)
  obtain m where "togo s = Suc m"
    using assms(2) by (auto simp: fan_done_def gr0_conv_Suc)
  with Cons show ?thesis
    by (cases r) (blast intro: fan_step.recv_err fan_step.recv_ok)+
qed

lemma fan_rank_step: "fan_step n out s t \<Longrightarrow> fan_rank t < fan_rank s"
proof (induction rule: fan_step.induct)
  case (send i s)
  then have "length (remove1 i (pending s)) + 1 = length (pending s)"
    by (simp add: length_remove1 Suc_pred length_pos_if_in_set del: length_greater_0_conv)
  then show ?case
    by (simp add: fan_rank_def)
qed (auto simp: fan_rank_def)

interpretation fan: terminating_machine "fan_step n out" "fan_inv n out" fan_rank fan_done for n out
  by unfold_locales (auto intro: fan_inv_step fan_progress fan_rank_step)

section \<open>Properties\<close>

text \<open>The concurrent fan-out, fan-in of \<open>forEachDatabase\<close> terminates for every interleaving and never
  blocks. After at most two steps per database no step is left; until the receiving loop has ended
  some goroutine or the loop can move; and a goroutine that has its result always finds room in the
  channel.\<close>

theorem fan_out_terminates:
  assumes "(fan_step n out ^^ k) (fan_init n) s"
  shows "k + fan_rank s \<le> 2 * n \<and> (togo s = 0 \<or> (\<exists>t. fan_step n out s t)) \<and>
    (\<forall>i \<in> set (pending s). \<exists>t. fan_step n out s t \<and> pending t = remove1 i (pending s))"
proof -
  have inv: "fan_inv n out s"
    using fan.inv_steps [OF relpowp_imp_rtranclp [OF assms] fan_inv_init] .
  have "k + fan_rank s \<le> fan_rank (fan_init n :: 'a fan)"
    by (rule fan.run_length [OF assms fan_inv_init])
  moreover have "fan_rank (fan_init n :: 'a fan) = 2 * n"
    by (simp add: fan_rank_def fan_init_def)
  moreover have "\<exists>t. fan_step n out s t \<and> pending t = remove1 i (pending s)"
    if "i \<in> set (pending s)" for i
    using fan_step.send [OF that fan_inv_room [OF inv that]] by force
  ultimately show ?thesis
    using fan.progress [OF inv] by (auto simp: fan_done_def)
qed

text \<open>What the concurrent program returns. When the receiving loop has ended, every goroutine has sent
  its result (none is left behind), the channel is empty, and the returned value is
  \<open>forEachDatabase\<close> at some order of arrival.\<close>

theorem fan_out_returns:
  assumes "(fan_step (length dbs) (\<lambda>i. f (db_Name (dbs ! i))))\<^sup>*\<^sup>* (fan_init (length dbs)) s"
    and "togo s = 0"
  shows "pending s = [] \<and> queue s = [] \<and>
    (\<exists>sched. is_schedule sched dbs \<and> fan_return (length dbs) s = forEachDatabase sched dbs f)"
proof -
  let ?out = "\<lambda>i. f (db_Name (dbs ! i))"
  have inv: "fan_inv (length dbs) ?out s"
    by (rule fan.inv_steps [OF assms(1) fan_inv_init])
  then show ?thesis
    using fan_inv_done [OF inv assms(2)] by (auto simp: is_schedule_def fan_return_def forEachDatabase_def)
qed

lemma demo_dbs_fan:
  "(fan_step 1 out ^^ 2) (fan_init 1) (fan_init 1\<lparr>pending := [], togo := 0, results := xs\<rparr>)"
  if "out 0 = Inr xs"
proof -
  let ?s = "fan_init 1\<lparr>pending := [], queue := [Inr xs]\<rparr>"
  have "fan_step 1 out (fan_init 1) ?s"
    using fan_step.send [of 0 "fan_init 1" 1 out] that by (simp add: fan_init_def)
  moreover have "fan_step 1 out ?s (fan_init 1\<lparr>pending := [], togo := 0, results := xs\<rparr>)"
    using fan_step.recv_ok [of ?s 0 xs "[]" 1 out] by (simp add: fan_init_def)
  ultimately show ?thesis
    by (simp add: numeral_2_eq_2) blast
qed

theorem fan_out_terminates_witness:
  "\<exists>s :: nat fan. (fan_step 1 (\<lambda>i. Inr [i]) ^^ 2) (fan_init 1) s \<and> 2 + fan_rank s \<le> 2 * 1"
  using fan_out_terminates [OF demo_dbs_fan, of "\<lambda>i. Inr [i]"] demo_dbs_fan [of "\<lambda>i. Inr [i]"] by blast

theorem fan_out_returns_witness:
  "\<exists>sched s. is_schedule sched [\<lparr>db_Name = ''app'', db_Oid = 5\<rparr>] \<and> togo s = 0 \<and>
     fan_return 1 s = forEachDatabase sched [\<lparr>db_Name = ''app'', db_Oid = 5\<rparr>] (\<lambda>d. Inr [d])"
proof -
  let ?dbs = "[\<lparr>db_Name = ''app'', db_Oid = 5\<rparr>]"
  let ?s = "fan_init 1\<lparr>pending := [], togo := 0, results := [''app'']\<rparr>"
  have "(fan_step 1 (\<lambda>i. Inr [db_Name (?dbs ! i)]))\<^sup>*\<^sup>* (fan_init 1) ?s"
    by (rule relpowp_imp_rtranclp [OF demo_dbs_fan]) simp
  then obtain sched where "is_schedule sched ?dbs"
      "fan_return 1 ?s = forEachDatabase sched ?dbs (\<lambda>d. Inr [d])"
    using fan_out_returns [of ?dbs "\<lambda>d. Inr [d]" ?s] by auto
  then show ?thesis
    by (intro exI [of _ sched] exI [of _ ?s]) simp
qed

text \<open>C8: all or nothing. For every order of arrival, \<open>forEachDatabase\<close> succeeds exactly when the worker
  succeeds on every database, and then returns the rows of every database exactly once: each
  database's rows stay together and in order, only the order of the databases depends on the
  schedule.\<close>

theorem forEachDatabase_ok:
  assumes "is_schedule sched dbs"
  shows "forEachDatabase sched dbs f = Inr rs \<longleftrightarrow>
    (\<forall>db \<in> set dbs. \<not> isl (f (db_Name db))) \<and> mset (arrival sched dbs) = mset dbs \<and>
    rs = concat (map (\<lambda>db. projr (f (db_Name db))) (arrival sched dbs))"
  (is "?l \<longleftrightarrow> ?r")
proof
  have set: "set (arrival sched dbs) = set dbs"
    using mset_arrival [OF assms] by (metis set_mset_mset)
  {
    assume ?l
    then obtain xss where x: "map (\<lambda>db. f (db_Name db)) (arrival sched dbs) = map Inr xss"
        "rs = concat xss"
      unfolding forEachDatabase_Inr_iff by blast
    have "map projr (map (\<lambda>db. f (db_Name db)) (arrival sched dbs)) = xss"
      unfolding x(1) by (simp add: o_def)
    then have "map (\<lambda>db. projr (f (db_Name db))) (arrival sched dbs) = xss"
      by (simp add: o_def)
    moreover have "\<not> isl (f (db_Name db))" if "db \<in> set dbs" for db
    proof -
      have "f (db_Name db) \<in> set (map Inr xss)"
        unfolding x(1) [symmetric] using that set by auto
      then show ?thesis by auto
    qed
    ultimately show ?r
      using x(2) mset_arrival [OF assms] by blast
  next
    assume r: ?r
    let ?xss = "map (\<lambda>db. projr (f (db_Name db))) (arrival sched dbs)"
    have "map (\<lambda>db. f (db_Name db)) (arrival sched dbs) = map Inr ?xss"
      using r set by (auto simp: o_def)
    with r show ?l
      unfolding forEachDatabase_Inr_iff by blast
  }
qed

text \<open>C9: the error of \<open>forEachDatabase\<close>. For every order of arrival, if the worker fails on some database
  the result is the single error \<open>failed to query %d/%d databases: %v\<close> with the number of databases
  that failed, the number of databases, and exactly their errors; since the errors are printed and
  not wrapped, the cause (a cancelled context, say) is not reachable through \<open>errors.Unwrap\<close>.\<close>

theorem forEachDatabase_error:
  assumes "is_schedule sched dbs" "\<exists>db \<in> set dbs. isl (f (db_Name db))"
  shows "\<exists>es. mset es = mset (lefts (map (\<lambda>db. f (db_Name db)) dbs)) \<and> es \<noteq> [] \<and>
    forEachDatabase sched dbs f = Inl (Errorf ''failed to query %d/%d databases: %v''
      [ArgInt (int (length es)), ArgInt (int (length dbs)), ArgErrs es]) \<and>
    unwrap (projl (forEachDatabase sched dbs f)) = None"
proof -
  let ?rs = "map (\<lambda>db. f (db_Name db))"
  let ?es = "lefts (?rs (arrival sched dbs))"
  have m: "mset ?es = mset (lefts (?rs dbs))"
    by (rule lefts_mset_cong) (simp add: mset_arrival [OF assms(1)])
  have "lefts (?rs dbs) \<noteq> []"
    using assms(2) unfolding lefts_Nil_iff by (metis (no_types, lifting) ex_map_conv imageI
        isl_def list.set_map sum.distinct(1))
  with m have "?es \<noteq> []"
    by (metis mset_zero_iff_right)
  then have "forEachDatabase sched dbs f = Inl (Errorf ''failed to query %d/%d databases: %v''
      [ArgInt (int (length ?es)), ArgInt (int (length dbs)), ArgErrs ?es])"
    by (simp add: forEachDatabase_Inl_iff Let_def)
  with m \<open>?es \<noteq> []\<close> show ?thesis
    by (intro exI [of _ ?es]) (simp add: unwrap_def List.map_filter_simps)
qed

definition demo_dbs :: "Database list" where
  "demo_dbs = [\<lparr>db_Name = ''app'', db_Oid = 5\<rparr>, \<lparr>db_Name = ''bi'', db_Oid = 6\<rparr>]"

theorem forEachDatabase_ok_witness:
  "is_schedule [1, 0] demo_dbs \<and>
   forEachDatabase [1, 0] demo_dbs (\<lambda>d. Inr [d, d @ ''x'']) = Inr [''bi'', ''bix'', ''app'', ''appx'']"
proof -
  have s: "is_schedule [1, 0] demo_dbs"
    by (simp add: is_schedule_def demo_dbs_def)
  then show ?thesis
    using forEachDatabase_ok [OF s, of "\<lambda>d. Inr [d, d @ ''x'']"]
    by (simp add: arrival_def demo_dbs_def)
qed

theorem forEachDatabase_error_witness:
  "is_schedule [1, 0] demo_dbs \<and>
   (\<exists>e. forEachDatabase [1, 0] demo_dbs
      (\<lambda>d. if d = ''bi'' then Inl (ErrorString ''refused'') else Inr [d]) = Inl e \<and> unwrap e = None)"
proof -
  have s: "is_schedule [1, 0] demo_dbs"
    by (simp add: is_schedule_def demo_dbs_def)
  let ?f = "\<lambda>d. if d = ''bi'' then Inl (ErrorString ''refused'') else Inr [d]"
  have "\<exists>db \<in> set demo_dbs. isl (?f (db_Name db))"
    by (simp add: demo_dbs_def)
  from forEachDatabase_error [OF s this] s show ?thesis
    by auto
qed

end
