(* ===== verification/Connection_Coordinator.thy ===== *)
theory Connection_Coordinator
  imports Go_Prelude
begin

text \<open>
  \<open>internal/extractor/store/coordinator.go\<close>: one semaphore (a channel with a buffer of one) per
  database, created on first use under a mutex.

  The state of the program that matters here is the coordinator (the map and its mutex), the heap of
  channels (for each allocated channel the number of values in its buffer) and the goroutines. Every
  goroutine is a call of a worker of the store: \<open>Acquire\<close>, then, if it returned nil, a body of
  effects, then the deferred \<open>Release\<close>. A step is one atomic action of one goroutine: locking or
  unlocking the mutex, the code between the two, one case of the select, one effect of the body. Steps
  of different goroutines interleave arbitrarily; new goroutines start and contexts are cancelled at
  any time.
\<close>

section \<open>The coordinator and its operations\<close>

type_synonym gid = nat
type_synonym chan = nat

record ConnectionCoordinator =
  dbSemaphores :: "string \<rightharpoonup> chan"
  mu :: "gid option"   \<comment> \<open>\<open>sync.Mutex\<close>: the goroutine that holds it\<close>

definition NewConnectionCoordinator :: ConnectionCoordinator where
  "NewConnectionCoordinator = \<lparr>dbSemaphores = Map.empty, mu = None\<rparr>"

text \<open>The heap of channels. \<open>make(chan struct{}, 1)\<close> allocates an empty one; a send on a full buffer
  and a receive from an empty one block (\<open>None\<close>).\<close>

type_synonym heap = "nat list"

definition chan_make :: "heap \<Rightarrow> heap \<times> chan" where
  "chan_make h = (h @ [0], length h)"

definition chan_send :: "heap \<Rightarrow> chan \<Rightarrow> heap option" where
  "chan_send h c = (if h ! c < 1 then Some (h[c := h ! c + 1]) else None)"

definition chan_recv :: "heap \<Rightarrow> chan \<Rightarrow> heap option" where
  "chan_recv h c = (if 0 < h ! c then Some (h[c := h ! c - 1]) else None)"

text \<open>The critical section of \<open>Acquire\<close>: find the semaphore of the database or create it.\<close>

definition acquire_critical ::
  "ConnectionCoordinator \<Rightarrow> heap \<Rightarrow> string \<Rightarrow> ConnectionCoordinator \<times> heap \<times> chan" where
  "acquire_critical c h dbName =
     (case dbSemaphores c dbName of
        None \<Rightarrow> (let (h', sem) = chan_make h
                 in (c\<lparr>dbSemaphores := (dbSemaphores c)(dbName \<mapsto> sem)\<rparr>, h', sem))
      | Some sem \<Rightarrow> (c, h, sem))"

section \<open>Goroutines and steps\<close>

text \<open>Where a goroutine is in \<open>Acquire\<close>, in the body, or in \<open>Release\<close>.\<close>

datatype pc =
    ALock                   \<comment> \<open>\<open>Acquire\<close>: before \<open>c.mu.Lock()\<close>\<close>
  | ACrit                   \<comment> \<open>\<open>Acquire\<close>: mutex held, map not read yet\<close>
  | AUnlock chan            \<comment> \<open>\<open>Acquire\<close>: semaphore read, before \<open>c.mu.Unlock()\<close>\<close>
  | ASelect chan            \<comment> \<open>\<open>Acquire\<close>: at the select\<close>
  | Body "event list"       \<comment> \<open>\<open>Acquire\<close> returned nil; the effects still to come before \<open>Release\<close>\<close>
  | RLock                   \<comment> \<open>\<open>Release\<close>: before \<open>c.mu.Lock()\<close>\<close>
  | RCrit                   \<comment> \<open>\<open>Release\<close>: mutex held\<close>
  | RUnlock "chan option"   \<comment> \<open>\<open>Release\<close>: map read, before \<open>c.mu.Unlock()\<close>\<close>
  | RRecv "chan option"     \<comment> \<open>\<open>Release\<close>: at \<open>if sem != nil { <-sem }\<close>\<close>
  | Returned "go_error option" \<comment> \<open>finished; \<open>Some e\<close>: \<open>Acquire\<close> returned the context's error\<close>

record goroutine =
  g_db :: string
  g_ctx :: "go_error option"  \<comment> \<open>\<open>ctx.Err()\<close>; \<open>ctx.Done()\<close> is ready when it is not nil\<close>
  g_body :: "event list"
  g_pc :: pc
  g_pools :: nat              \<comment> \<open>pools of this goroutine that are open\<close>

record sys =
  coord :: ConnectionCoordinator
  chans :: heap
  gor :: "goroutine list"

definition init_sys :: sys where
  "init_sys = \<lparr>coord = NewConnectionCoordinator, chans = [], gor = []\<rparr>"

fun pools_after :: "event \<Rightarrow> nat \<Rightarrow> nat" where
  "pools_after (EvPoolNew s) n = n + 1"
| "pools_after (EvPoolClose s) n = n - 1"
| "pools_after _ n = n"

definition goto :: "sys \<Rightarrow> gid \<Rightarrow> pc \<Rightarrow> sys" where
  "goto s g p = s\<lparr>gor := (gor s)[g := (gor s ! g)\<lparr>g_pc := p\<rparr>]\<rparr>"

definition set_mu :: "sys \<Rightarrow> gid option \<Rightarrow> sys" where
  "set_mu s m = s\<lparr>coord := (coord s)\<lparr>mu := m\<rparr>\<rparr>"

text \<open>The next action of goroutine \<open>g\<close>; \<open>None\<close> while it is blocked or after it has returned. Only the
  select has a choice, made by \<open>take_done\<close>.\<close>

definition go_step :: "sys \<Rightarrow> gid \<Rightarrow> bool \<Rightarrow> sys option" where
  "go_step s g take_done =
     (let r = gor s ! g in
      case g_pc r of
        ALock \<Rightarrow> if mu (coord s) = None then Some (goto (set_mu s (Some g)) g ACrit) else None
      | ACrit \<Rightarrow>
          (let (c', h', sem) = acquire_critical (coord s) (chans s) (g_db r)
           in Some (goto (s\<lparr>coord := c', chans := h'\<rparr>) g (AUnlock sem)))
      | AUnlock sem \<Rightarrow> Some (goto (set_mu s None) g (ASelect sem))
      | ASelect sem \<Rightarrow>
          (if take_done
           then (case g_ctx r of None \<Rightarrow> None | Some e \<Rightarrow> Some (goto s g (Returned (Some e))))
           else (case chan_send (chans s) sem of None \<Rightarrow> None
                 | Some h \<Rightarrow> Some (goto (s\<lparr>chans := h\<rparr>) g (Body (g_body r)))))
      | Body [] \<Rightarrow> Some (goto s g RLock)
      | Body (e # es) \<Rightarrow>
          Some (s\<lparr>gor := (gor s)[g := r\<lparr>g_pc := Body es, g_pools := pools_after e (g_pools r)\<rparr>]\<rparr>)
      | RLock \<Rightarrow> if mu (coord s) = None then Some (goto (set_mu s (Some g)) g RCrit) else None
      | RCrit \<Rightarrow> Some (goto s g (RUnlock (dbSemaphores (coord s) (g_db r))))
      | RUnlock sem \<Rightarrow> Some (goto (set_mu s None) g (RRecv sem))
      | RRecv None \<Rightarrow> Some (goto s g (Returned None))
      | RRecv (Some sem) \<Rightarrow>
          (case chan_recv (chans s) sem of None \<Rightarrow> None
           | Some h \<Rightarrow> Some (goto (s\<lparr>chans := h\<rparr>) g (Returned None)))
      | Returned x \<Rightarrow> None)"

text \<open>The effects a body may have: it opens and closes pools in matching order, closes all it
  opened, and does not touch the coordinator.\<close>

fun body_ok :: "nat \<Rightarrow> event list \<Rightarrow> bool" where
  "body_ok n [] = (n = 0)"
| "body_ok n (EvPoolNew s # es) = body_ok (n + 1) es"
| "body_ok n (EvPoolClose s # es) = (0 < n \<and> body_ok (n - 1) es)"
| "body_ok n (EvAcquire d # es) = False"
| "body_ok n (EvRelease d # es) = False"
| "body_ok n (e # es) = body_ok n es"

inductive run_step :: "sys \<Rightarrow> sys \<Rightarrow> bool" where
  run: "g < length (gor s) \<Longrightarrow> go_step s g d = Some t \<Longrightarrow> run_step s t"

definition spawn_go :: "sys \<Rightarrow> string \<Rightarrow> go_error option \<Rightarrow> event list \<Rightarrow> sys" where
  "spawn_go s d x b =
     s\<lparr>gor := gor s @ [\<lparr>g_db = d, g_ctx = x, g_body = b, g_pc = ALock, g_pools = 0\<rparr>]\<rparr>"

inductive env_step :: "sys \<Rightarrow> sys \<Rightarrow> bool" where
  spawn: "body_ok 0 b \<Longrightarrow> env_step s (spawn_go s d x b)"
| cancel: "g < length (gor s) \<Longrightarrow>
    env_step s (s\<lparr>gor := (gor s)[g := (gor s ! g)\<lparr>g_ctx := Some e\<rparr>]\<rparr>)"

definition sys_step :: "sys \<Rightarrow> sys \<Rightarrow> bool" where
  "sys_step s t \<longleftrightarrow> run_step s t \<or> env_step s t"

fun exec :: "sys \<Rightarrow> (gid \<times> bool) list \<Rightarrow> sys option" where
  "exec s [] = Some s"
| "exec s ((g, d) # sched) =
     (if g < length (gor s) then Option.bind (go_step s g d) (\<lambda>t. exec t sched) else None)"

definition reachable :: "sys \<Rightarrow> bool" where
  "reachable s \<longleftrightarrow> sys_step\<^sup>*\<^sup>* init_sys s"

section \<open>Observations\<close>

fun in_mu :: "pc \<Rightarrow> bool" where
  "in_mu ACrit = True"
| "in_mu (AUnlock c) = True"
| "in_mu RCrit = True"
| "in_mu (RUnlock c) = True"
| "in_mu _ = False"

text \<open>\<open>Acquire\<close> has returned nil and \<open>Release\<close> has not yet emptied the semaphore.\<close>

fun permitted :: "pc \<Rightarrow> bool" where
  "permitted (Body es) = True"
| "permitted RLock = True"
| "permitted RCrit = True"
| "permitted (RUnlock c) = True"
| "permitted (RRecv c) = True"
| "permitted _ = False"

definition holder :: "sys \<Rightarrow> string \<Rightarrow> gid \<Rightarrow> bool" where
  "holder s d g \<longleftrightarrow> g < length (gor s) \<and> g_db (gor s ! g) = d \<and> permitted (g_pc (gor s ! g))"

definition connected :: "sys \<Rightarrow> string \<Rightarrow> gid \<Rightarrow> bool" where
  "connected s d g \<longleftrightarrow> g < length (gor s) \<and> g_db (gor s ! g) = d \<and> 0 < g_pools (gor s ! g)"

definition all_returned :: "sys \<Rightarrow> bool" where
  "all_returned s \<longleftrightarrow> (\<forall>r \<in> set (gor s). \<exists>x. g_pc r = Returned x)"

section \<open>The invariant\<close>

fun pc_ok :: "(string \<rightharpoonup> chan) \<Rightarrow> goroutine \<Rightarrow> pc \<Rightarrow> bool" where
  "pc_ok sem r (AUnlock c) = (sem (g_db r) = Some c)"
| "pc_ok sem r (ASelect c) = (sem (g_db r) = Some c)"
| "pc_ok sem r (RUnlock x) = (sem (g_db r) = x \<and> x \<noteq> None)"
| "pc_ok sem r (RRecv x) = (sem (g_db r) = x \<and> x \<noteq> None)"
| "pc_ok sem r (Body es) = (sem (g_db r) \<noteq> None)"
| "pc_ok sem r RLock = (sem (g_db r) \<noteq> None)"
| "pc_ok sem r RCrit = (sem (g_db r) \<noteq> None)"
| "pc_ok sem r _ = True"

fun pools_ok :: "goroutine \<Rightarrow> pc \<Rightarrow> bool" where
  "pools_ok r (Body es) = body_ok (g_pools r) es"
| "pools_ok r _ = (g_pools r = 0)"

definition sems_ok :: "sys \<Rightarrow> bool" where
  "sems_ok s \<longleftrightarrow> inj_on (dbSemaphores (coord s)) (dom (dbSemaphores (coord s))) \<and>
     (\<forall>d c. dbSemaphores (coord s) d = Some c \<longrightarrow> c < length (chans s) \<and> chans s ! c \<le> 1)"

definition mu_ok :: "sys \<Rightarrow> bool" where
  "mu_ok s \<longleftrightarrow> (\<forall>g. mu (coord s) = Some g \<longleftrightarrow> g < length (gor s) \<and> in_mu (g_pc (gor s ! g)))"

definition gor_ok :: "sys \<Rightarrow> bool" where
  "gor_ok s \<longleftrightarrow> (\<forall>g < length (gor s). let r = gor s ! g in
     pc_ok (dbSemaphores (coord s)) r (g_pc r) \<and> pools_ok r (g_pc r) \<and> body_ok 0 (g_body r))"

definition permits_ok :: "sys \<Rightarrow> bool" where
  "permits_ok s \<longleftrightarrow>
     (\<forall>d g g'. holder s d g \<longrightarrow> holder s d g' \<longrightarrow> g = g') \<and>
     (\<forall>d c. dbSemaphores (coord s) d = Some c \<longrightarrow> (chans s ! c = 1 \<longleftrightarrow> (\<exists>g. holder s d g)))"

definition coord_inv :: "sys \<Rightarrow> bool" where
  "coord_inv s \<longleftrightarrow> sems_ok s \<and> mu_ok s \<and> gor_ok s \<and> permits_ok s"

section \<open>Lemmas\<close>

lemma inj_on_map_upd:
  assumes "inj_on m (dom m)" "Some c \<notin> range m"
  shows "inj_on (m(d \<mapsto> c)) (insert d (dom m))"
  using assms by (auto simp: inj_on_def) (metis rangeI)+

lemma nth_update_le_1: "h ! c \<le> Suc 0 \<Longrightarrow> v \<le> Suc 0 \<Longrightarrow> h[i := v] ! c \<le> Suc 0"
  by (metis list_update_beyond not_le_imp_less nth_list_update)

lemma goto_simps [simp]:
  "coord (goto s g p) = coord s" "chans (goto s g p) = chans s"
  "length (gor (goto s g p)) = length (gor s)"
  "coord (set_mu s m) = (coord s)\<lparr>mu := m\<rparr>" "chans (set_mu s m) = chans s"
  "gor (set_mu s m) = gor s"
  "coord (spawn_go s d x b) = coord s" "chans (spawn_go s d x b) = chans s"
  "gor (spawn_go s d x b) =
     gor s @ [\<lparr>g_db = d, g_ctx = x, g_body = b, g_pc = ALock, g_pools = 0\<rparr>]"
  by (simp_all add: goto_def set_mu_def spawn_go_def)

lemma gor_goto_nth:
  "g < length (gor s) \<Longrightarrow>
     gor (goto s g p) ! g' = (if g' = g then (gor s ! g)\<lparr>g_pc := p\<rparr> else gor s ! g')"
  by (simp add: goto_def nth_list_update)

lemma holder_goto:
  "g < length (gor s) \<Longrightarrow>
     holder (goto s g p) d g' \<longleftrightarrow>
       (if g' = g then g_db (gor s ! g) = d \<and> permitted p else holder s d g')"
  by (auto simp: holder_def gor_goto_nth)

lemma holder_cong [simp]:
  "holder (s\<lparr>coord := c\<rparr>) = holder s" "holder (s\<lparr>chans := h\<rparr>) = holder s"
  "holder (set_mu s m) = holder s" "holder (s\<lparr>coord := c, chans := h\<rparr>) = holder s"
  by (simp_all add: fun_eq_iff holder_def set_mu_def)

text \<open>Inversion of a step: one case for each action of a goroutine.\<close>

lemma go_step_cases [consumes 1, case_names lock crit unlock cancelled send body_end effect
    rlock rcrit runlock recv_nil recv]:
  assumes "go_step s g d = Some t"
  obtains
    "g_pc (gor s ! g) = ALock" "mu (coord s) = None" "t = goto (set_mu s (Some g)) g ACrit"
  | c h sem where "g_pc (gor s ! g) = ACrit"
      "acquire_critical (coord s) (chans s) (g_db (gor s ! g)) = (c, h, sem)"
      "t = goto (s\<lparr>coord := c, chans := h\<rparr>) g (AUnlock sem)"
  | sem where "g_pc (gor s ! g) = AUnlock sem" "t = goto (set_mu s None) g (ASelect sem)"
  | sem e where "g_pc (gor s ! g) = ASelect sem" "g_ctx (gor s ! g) = Some e"
      "t = goto s g (Returned (Some e))"
  | sem where "g_pc (gor s ! g) = ASelect sem" "chans s ! sem < 1"
      "t = goto (s\<lparr>chans := (chans s)[sem := chans s ! sem + 1]\<rparr>) g (Body (g_body (gor s ! g)))"
  | "g_pc (gor s ! g) = Body []" "t = goto s g RLock"
  | e es where "g_pc (gor s ! g) = Body (e # es)"
      "t = s\<lparr>gor := (gor s)[g := (gor s ! g)\<lparr>g_pc := Body es,
         g_pools := pools_after e (g_pools (gor s ! g))\<rparr>]\<rparr>"
  | "g_pc (gor s ! g) = RLock" "mu (coord s) = None" "t = goto (set_mu s (Some g)) g RCrit"
  | "g_pc (gor s ! g) = RCrit" "t = goto s g (RUnlock (dbSemaphores (coord s) (g_db (gor s ! g))))"
  | x where "g_pc (gor s ! g) = RUnlock x" "t = goto (set_mu s None) g (RRecv x)"
  | "g_pc (gor s ! g) = RRecv None" "t = goto s g (Returned None)"
  | sem where "g_pc (gor s ! g) = RRecv (Some sem)" "0 < chans s ! sem"
      "t = goto (s\<lparr>chans := (chans s)[sem := chans s ! sem - 1]\<rparr>) g (Returned None)"
  using assms
  by (auto simp: go_step_def Let_def chan_send_def chan_recv_def
      split: pc.splits if_splits option.splits list.splits prod.splits)

lemma acquire_critical_cases [consumes 1, case_names found made]:
  assumes "acquire_critical c h d = (c', h', sem)"
  obtains "dbSemaphores c d = Some sem" "c' = c" "h' = h"
  | "dbSemaphores c d = None" "sem = length h" "h' = h @ [0]"
    "c' = c\<lparr>dbSemaphores := (dbSemaphores c)(d \<mapsto> length h)\<rparr>"
  using assms by (auto simp: acquire_critical_def chan_make_def split: option.splits)


subsection \<open>Every step keeps the invariant\<close>

lemma sems_ok_step:
  assumes "go_step s g d = Some t" "sems_ok s" "gor_ok s" "g < length (gor s)"
  shows "sems_ok t"
  using assms(1)
proof (cases rule: go_step_cases)
  case (crit c h sem)
  from crit(2) show ?thesis
  proof (cases rule: acquire_critical_cases)
    case made
    let ?m = "dbSemaphores (coord s)"
    have "Some (length (chans s)) \<notin> range ?m"
      using assms(2) unfolding sems_ok_def by (metis imageE less_irrefl)
    then have "inj_on (?m(g_db (gor s ! g) \<mapsto> length (chans s))) (insert (g_db (gor s ! g)) (dom ?m))"
      using assms(2) by (intro inj_on_map_upd) (simp_all add: sems_ok_def)
    then show ?thesis
      unfolding crit(3) sems_ok_def using assms(2) made
      by (simp add: sems_ok_def nth_append) (metis less_SucI)
  qed (use crit assms(2) in \<open>simp add: sems_ok_def\<close>)
next
  case (send sem)
  then show ?thesis
    using assms(2) by (auto simp: sems_ok_def intro!: nth_update_le_1)
next
  case (recv sem)
  then have "dbSemaphores (coord s) (g_db (gor s ! g)) = Some sem"
    using assms(3,4) by (auto simp: gor_ok_def Let_def)
  then have "chans s ! sem \<le> 1"
    using assms(2) by (simp add: sems_ok_def)
  with recv show ?thesis
    using assms(2) by (auto simp: sems_ok_def intro!: nth_update_le_1)
qed (use assms(2) in \<open>simp_all add: sems_ok_def\<close>)

lemma mu_ok_step:
  assumes "go_step s g d = Some t" "mu_ok s" "g < length (gor s)"
  shows "mu_ok t"
proof -
  have mu: "mu (coord s) = Some g' \<longleftrightarrow> g' < length (gor s) \<and> in_mu (g_pc (gor s ! g'))" for g'
    using assms(2) by (simp add: mu_ok_def)
  show ?thesis
    using assms(1)
  proof (cases rule: go_step_cases)
    case lock
    with mu assms(3) show ?thesis by (auto simp: mu_ok_def gor_goto_nth)
  next
    case (crit c h sem)
    have "mu c = mu (coord s)"
      using crit(2) by (cases rule: acquire_critical_cases) auto
    moreover have "in_mu (g_pc (gor t ! g')) = in_mu (g_pc (gor s ! g'))" for g'
      using crit(1,3) assms(3) by (simp add: gor_goto_nth)
    ultimately show ?thesis using crit(3) mu by (simp add: mu_ok_def)
  next
    case (unlock sem)
    then have "mu (coord s) = Some g"
      using mu [of g] assms(3) by simp
    then have "\<not> in_mu (g_pc (gor t ! g'))" if "g' < length (gor s)" for g'
      using unlock assms(3) mu [of g'] that by (auto simp: gor_goto_nth)
    with unlock show ?thesis by (auto simp: mu_ok_def)
  next
    case rlock
    with mu assms(3) show ?thesis by (auto simp: mu_ok_def gor_goto_nth)
  next
    case (runlock x)
    then have "mu (coord s) = Some g"
      using mu [of g] assms(3) by simp
    then have "\<not> in_mu (g_pc (gor t ! g'))" if "g' < length (gor s)" for g'
      using runlock assms(3) mu [of g'] that by (auto simp: gor_goto_nth)
    with runlock show ?thesis by (auto simp: mu_ok_def)
  qed (use mu assms(3) in \<open>auto simp: mu_ok_def gor_goto_nth nth_list_update\<close>)
qed

text \<open>A semaphore of one database never becomes the semaphore of another, and none is replaced.\<close>

lemma dbSemaphores_mono:
  assumes "go_step s g d = Some t" "dbSemaphores (coord s) x = Some c"
  shows "dbSemaphores (coord t) x = Some c"
  using assms(1)
proof (cases rule: go_step_cases)
  case (crit c' h sem)
  from crit(2) show ?thesis
    by (cases rule: acquire_critical_cases) (use crit(3) assms(2) in auto)
qed (use assms(2) in auto)

lemma pc_ok_mono:
  assumes "pc_ok m r p" "\<And>c. m (g_db r) = Some c \<Longrightarrow> m' (g_db r) = Some c"
  shows "pc_ok m' r p"
  using assms by (cases p) auto

lemma gor_ok_step:
  assumes "go_step s g d = Some t" "gor_ok s" "g < length (gor s)"
  shows "gor_ok t"
proof -
  let ?m = "dbSemaphores (coord s)" let ?m' = "dbSemaphores (coord t)"
  have mono: "\<And>x c. ?m x = Some c \<Longrightarrow> ?m' x = Some c"
    using dbSemaphores_mono [OF assms(1)] .
  have len: "length (gor t) = length (gor s)"
    using assms(1) by (cases rule: go_step_cases) auto
  have other: "gor t ! g' = gor s ! g'" if "g' \<noteq> g" for g'
    using assms(1) that assms(3) by (cases rule: go_step_cases) (auto simp: gor_goto_nth)
  have old: "pc_ok ?m (gor s ! g') (g_pc (gor s ! g'))" "pools_ok (gor s ! g') (g_pc (gor s ! g'))"
      "body_ok 0 (g_body (gor s ! g'))" if "g' < length (gor s)" for g'
    using assms(2) that by (auto simp: gor_ok_def Let_def)
  note this_old = old [OF assms(3)]
  have "pc_ok ?m' (gor t ! g) (g_pc (gor t ! g)) \<and> pools_ok (gor t ! g) (g_pc (gor t ! g)) \<and>
      body_ok 0 (g_body (gor t ! g))"
    using assms(1)
  proof (cases rule: go_step_cases)
    case (crit c h sem)
    from crit(2) have "dbSemaphores c (g_db (gor s ! g)) = Some sem"
      by (cases rule: acquire_critical_cases) auto
    with crit(1,3) this_old assms(3) show ?thesis by (simp add: gor_goto_nth)
  next
    case (effect e es)
    with this_old assms(3) show ?thesis by (cases e) auto
  qed (use this_old assms(3) in \<open>auto simp: gor_goto_nth\<close>)
  then show ?thesis
    unfolding gor_ok_def Let_def len using old other mono pc_ok_mono by metis
qed

text \<open>A step that leaves the heap and every permit alone keeps \<open>permits_ok\<close>.\<close>

lemma permits_ok_cong:
  assumes "permits_ok s" "holder t = holder s"
    and "\<And>d c. dbSemaphores (coord t) d = Some c \<Longrightarrow>
      dbSemaphores (coord s) d = Some c \<and> chans t ! c = chans s ! c"
  shows "permits_ok t"
  using assms unfolding permits_ok_def by metis

lemma holder_goto_same:
  assumes "g < length (gor s)" "permitted p = permitted (g_pc (gor s ! g))"
  shows "holder (goto s g p) = holder s"
  by (simp add: fun_eq_iff holder_goto [OF assms(1)] assms) (simp add: holder_def assms)

lemma sem_unique:
  "sems_ok s \<Longrightarrow> dbSemaphores (coord s) d = Some c \<Longrightarrow> dbSemaphores (coord s) d' = Some c \<Longrightarrow> d = d'"
  by (metis domI inj_on_contraD sems_ok_def)

lemma permits_ok_step:
  assumes "go_step s g d = Some t" "coord_inv s" "g < length (gor s)"
  shows "permits_ok t"
proof -
  have inv: "sems_ok s" "gor_ok s" and p: "permits_ok s"
    using assms(2) by (auto simp: coord_inv_def)
  have pc: "pc_ok (dbSemaphores (coord s)) (gor s ! g) (g_pc (gor s ! g))"
    using inv(2) assms(3) by (auto simp: gor_ok_def Let_def)
  let ?db = "g_db (gor s ! g)"
  show ?thesis
    using assms(1)
  proof (cases rule: go_step_cases)
    case (crit c h sem)
    have h: "holder t = holder s"
      using crit(1,3) assms(3) by (simp add: holder_goto_same)
    from crit(2) show ?thesis
    proof (cases rule: acquire_critical_cases)
      case found
      with crit(3) h p show ?thesis by (intro permits_ok_cong [OF p]) auto
    next
      case made
      have "\<not> holder s ?db g'" for g'
      proof
        assume "holder s ?db g'"
        then have "pc_ok (dbSemaphores (coord s)) (gor s ! g') (g_pc (gor s ! g'))"
            "g_db (gor s ! g') = ?db" "permitted (g_pc (gor s ! g'))"
          using inv(2) by (auto simp: holder_def gor_ok_def Let_def)
        with made(1) show False by (cases "g_pc (gor s ! g')") auto
      qed
      moreover have "c' < length (chans s)" if "dbSemaphores (coord s) d' = Some c'" for d' c'
        using inv(1) that by (auto simp: sems_ok_def)
      ultimately show ?thesis
        using p made crit(3) h by (auto simp: permits_ok_def nth_append)
    qed
  next
    case (send sem)
    have sem: "dbSemaphores (coord s) ?db = Some sem" "sem < length (chans s)"
      using pc send(1) inv(1) by (auto simp: sems_ok_def)
    have free: "\<not> holder s ?db g'" for g'
      using p sem(1) send(2) unfolding permits_ok_def by (metis less_irrefl)
    have h: "holder t d' g' \<longleftrightarrow> (if g' = g then ?db = d' else holder s d' g')" for d' g'
      using send(3) assms(3) holder_goto [of g "s\<lparr>chans := h\<rparr>" for h] by simp
    show ?thesis
      unfolding permits_ok_def h
    proof (intro conjI allI impI)
      fix d' c assume c: "dbSemaphores (coord t) d' = Some c"
      then have c': "dbSemaphores (coord s) d' = Some c" using send(3) by simp
      show "(chans t ! c = 1) = (\<exists>g'. if g' = g then ?db = d' else holder s d' g')"
      proof (cases "d' = ?db")
        case True
        with c' sem send show ?thesis by auto
      next
        case False
        then have "c \<noteq> sem" using sem_unique [OF inv(1) c'] sem(1) by auto
        then have "chans t ! c = chans s ! c" using send(3) by simp
        moreover have "\<not> holder s d' g"
          using False by (simp add: holder_def)
        ultimately show ?thesis
          using p c' False unfolding permits_ok_def by metis
      qed
    qed (use free p in \<open>auto simp: permits_ok_def split: if_splits\<close>)
  next
    case (recv sem)
    have sem: "dbSemaphores (coord s) ?db = Some sem" "sem < length (chans s)" "chans s ! sem \<le> 1"
      using pc recv(1) inv(1) by (auto simp: sems_ok_def)
    have me: "holder s ?db g"
      using recv(1) assms(3) by (simp add: holder_def)
    have h: "holder t d' g' \<longleftrightarrow> g' \<noteq> g \<and> holder s d' g'" for d' g'
      using recv(3) assms(3) holder_goto [of g "s\<lparr>chans := h\<rparr>" for h] by simp
    show ?thesis
      unfolding permits_ok_def h
    proof (intro conjI allI impI)
      fix d' c assume c: "dbSemaphores (coord t) d' = Some c"
      then have c': "dbSemaphores (coord s) d' = Some c" using recv(3) by simp
      show "(chans t ! c = 1) = (\<exists>g'. g' \<noteq> g \<and> holder s d' g')"
      proof (cases "d' = ?db")
        case True
        then have "c = sem" using c' sem(1) by simp
        with True recv sem p me show ?thesis
          unfolding permits_ok_def by auto
      next
        case False
        then have "c \<noteq> sem" using sem_unique [OF inv(1) c'] sem(1) by auto
        then have "chans t ! c = chans s ! c" using recv(3) by simp
        moreover have "\<not> holder s d' g"
          using False by (simp add: holder_def)
        ultimately show ?thesis
          using p c' False unfolding permits_ok_def by metis
      qed
    qed (use p in \<open>auto simp: permits_ok_def\<close>)
  next
    case (effect e es)
    then have "holder t = holder s"
      using assms(3) by (auto simp: fun_eq_iff holder_def nth_list_update)
    with effect p show ?thesis by (intro permits_ok_cong [OF p]) auto
  next
    case recv_nil
    with pc show ?thesis by simp
  qed (use p assms(3) in \<open>auto intro!: permits_ok_cong [OF p] simp: holder_goto_same\<close>)
qed

lemma coord_inv_run_step: "run_step s t \<Longrightarrow> coord_inv s \<Longrightarrow> coord_inv t"
  by (auto simp: coord_inv_def elim!: run_step.cases
      intro: sems_ok_step mu_ok_step gor_ok_step permits_ok_step)

lemma holder_env:
  assumes "env_step s t"
  shows "holder t = holder s"
  using assms
  by cases (auto simp: fun_eq_iff holder_def nth_append nth_list_update less_Suc_eq)

lemma coord_inv_env_step:
  assumes "env_step s t" "coord_inv s"
  shows "coord_inv t"
proof -
  have c: "coord t = coord s" "chans t = chans s"
    using assms(1) by (cases; simp)+
  have "permits_ok t"
    by (rule permits_ok_cong [of s]) (use assms c in \<open>auto simp: coord_inv_def holder_env\<close>)
  moreover have "mu_ok t"
    unfolding mu_ok_def
  proof
    fix g'
    have "mu (coord s) = Some g' \<longleftrightarrow> g' < length (gor s) \<and> in_mu (g_pc (gor s ! g'))"
      using assms(2) unfolding coord_inv_def mu_ok_def by blast
    moreover have "g' < length (gor t) \<and> in_mu (g_pc (gor t ! g')) \<longleftrightarrow>
        g' < length (gor s) \<and> in_mu (g_pc (gor s ! g'))"
      using assms(1) by cases (auto simp: nth_append nth_list_update less_Suc_eq)
    ultimately show "mu (coord t) = Some g' \<longleftrightarrow> g' < length (gor t) \<and> in_mu (g_pc (gor t ! g'))"
      using c(1) by simp
  qed
  moreover have "gor_ok t"
    using assms(1)
  proof cases
    case (spawn b d x)
    then show ?thesis
      using assms(2) by (auto simp: coord_inv_def gor_ok_def Let_def nth_append less_Suc_eq)
  next
    case (cancel g e)
    have "pc_ok m (r\<lparr>g_ctx := y\<rparr>) p = pc_ok m r p" "pools_ok (r\<lparr>g_ctx := y\<rparr>) p = pools_ok r p"
      for m r y p by (cases p; simp)+
    then show ?thesis
      using cancel assms(2) by (auto simp: coord_inv_def gor_ok_def Let_def nth_list_update)
  qed
  ultimately show ?thesis
    using assms(2) c by (simp add: coord_inv_def sems_ok_def)
qed

lemma coord_inv_init: "coord_inv init_sys"
  by (simp add: coord_inv_def init_sys_def NewConnectionCoordinator_def sems_ok_def mu_ok_def
      gor_ok_def permits_ok_def holder_def)

lemma coord_inv_sys_step: "coord_inv s \<Longrightarrow> sys_step s t \<Longrightarrow> coord_inv t"
  by (auto simp: sys_step_def intro: coord_inv_run_step coord_inv_env_step)

lemma coord_inv_pc_ok:
  "coord_inv s \<Longrightarrow> g < length (gor s) \<Longrightarrow> pc_ok (dbSemaphores (coord s)) (gor s ! g) (g_pc (gor s ! g))"
  by (simp add: coord_inv_def gor_ok_def Let_def)

interpretation coordinator: machine sys_step coord_inv
  by unfold_locales (rule coord_inv_sys_step)

lemma reachable_inv: "reachable s \<Longrightarrow> coord_inv s"
  unfolding reachable_def by (rule coordinator.inv_steps [OF _ coord_inv_init])

subsection \<open>Progress and termination\<close>

fun pc_rank :: "event list \<Rightarrow> pc \<Rightarrow> nat" where
  "pc_rank b ALock = length b + 9"
| "pc_rank b ACrit = length b + 8"
| "pc_rank b (AUnlock c) = length b + 7"
| "pc_rank b (ASelect c) = length b + 6"
| "pc_rank b (Body es) = length es + 5"
| "pc_rank b RLock = 4"
| "pc_rank b RCrit = 3"
| "pc_rank b (RUnlock x) = 2"
| "pc_rank b (RRecv x) = 1"
| "pc_rank b (Returned x) = 0"

text \<open>The number of actions the goroutines of a state can still perform, at most.\<close>

definition remaining_work :: "sys \<Rightarrow> nat" where
  "remaining_work s = sum_list (map (\<lambda>r. pc_rank (g_body r) (g_pc r)) (gor s))"

lemma remaining_work_step:
  assumes "g < length (gor s)" "go_step s g d = Some t"
  shows "remaining_work t < remaining_work s"
proof -
  obtain r where r: "gor t = (gor s)[g := r]"
      "pc_rank (g_body r) (g_pc r) < pc_rank (g_body (gor s ! g)) (g_pc (gor s ! g))"
    using assms(2)
    by (cases rule: go_step_cases) (force simp: goto_def set_mu_def)+
  then show ?thesis
    unfolding remaining_work_def r(1) using assms(1) by (intro sum_list_update_less) simp_all
qed

lemma holder_can_step:
  assumes "coord_inv s" "mu (coord s) = None" "holder s d g"
  shows "go_step s g False \<noteq> None"
proof -
  have g: "g < length (gor s)" "permitted (g_pc (gor s ! g))" "g_db (gor s ! g) = d"
    using assms(3) by (auto simp: holder_def)
  have ok: "pc_ok (dbSemaphores (coord s)) (gor s ! g) (g_pc (gor s ! g))"
      "\<not> in_mu (g_pc (gor s ! g))"
    using assms(1,2) g(1) by (auto simp: coord_inv_def gor_ok_def mu_ok_def Let_def)
  have full: "chans s ! c = 1" if "dbSemaphores (coord s) d = Some c" for c
    using assms(1,3) that by (auto simp: coord_inv_def permits_ok_def)
  show ?thesis
    using g ok full assms(2)
    by (cases "g_pc (gor s ! g)")
      (auto simp: go_step_def Let_def chan_recv_def split: list.splits)
qed

lemma goroutine_progress:
  assumes "coord_inv s" "\<not> all_returned s"
  shows "\<exists>t. run_step s t"
proof (cases "mu (coord s)")
  case (Some g)
  then have g: "g < length (gor s)" "in_mu (g_pc (gor s ! g))"
    using assms(1) by (auto simp: coord_inv_def mu_ok_def)
  then have "go_step s g False \<noteq> None"
    by (cases "g_pc (gor s ! g)") (auto simp: go_step_def Let_def split: prod.splits)
  with g show ?thesis by (auto intro: run_step.run)
next
  case None
  obtain g where g: "g < length (gor s)" "\<And>x. g_pc (gor s ! g) \<noteq> Returned x"
    using assms(2) by (auto simp: all_returned_def in_set_conv_nth)
  have "\<exists>g' < length (gor s). go_step s g' False \<noteq> None"
  proof (cases "g_pc (gor s ! g)")
    case (ASelect c)
    then have c: "dbSemaphores (coord s) (g_db (gor s ! g)) = Some c"
      using assms(1) g(1) by (auto simp: coord_inv_def gor_ok_def Let_def)
    show ?thesis
    proof (cases "chans s ! c < 1")
      case True
      with ASelect g(1) show ?thesis by (auto simp: go_step_def Let_def chan_send_def)
    next
      case False
      then have "chans s ! c = 1"
        using assms(1) c by (fastforce simp: coord_inv_def sems_ok_def)
      then obtain h where h: "holder s (g_db (gor s ! g)) h"
        using assms(1) c by (auto simp: coord_inv_def permits_ok_def)
      with holder_can_step [OF assms(1) None] show ?thesis
        by (metis holder_def)
    qed
  next
    case ALock
    with None g(1) show ?thesis by (auto simp: go_step_def Let_def)
  next
    case (Returned x)
    with g(2) show ?thesis by blast
  qed (use assms(1) None g holder_can_step [OF assms(1) None] in
      \<open>auto simp: holder_def coord_inv_def mu_ok_def\<close>)
  then show ?thesis
    by (auto intro: run_step.run)
qed

interpretation goroutines: terminating_machine run_step coord_inv remaining_work all_returned
proof unfold_locales
  show "coord_inv t" if "coord_inv s" "run_step s t" for s t
    using that coord_inv_run_step by blast
  show "remaining_work t < remaining_work s" if "coord_inv s" "run_step s t" for s t
    using that(2) by cases (rule remaining_work_step)
  show "\<exists>t. run_step s t" if "coord_inv s" "\<not> all_returned s" for s
    using that by (rule goroutine_progress)
qed

section \<open>The contract of the coordinator\<close>

text \<open>What a client of a permit service may rely on: a permit has one holder at a time. A resource
  that is only used by holders of the permit then has at most one user.\<close>

locale exclusive_permit =
  fixes reach :: "'s \<Rightarrow> bool" and holds :: "'s \<Rightarrow> 'k \<Rightarrow> nat \<Rightarrow> bool"
  assumes exclusive: "reach s \<Longrightarrow> holds s k g \<Longrightarrow> holds s k g' \<Longrightarrow> g = g'"
begin

lemma at_most_one_user:
  assumes "reach s" "\<And>g. uses g \<Longrightarrow> holds s k g"
  shows "card {g. uses g} \<le> 1"
proof -
  have "g = g'" if "uses g" "uses g'" for g g'
    using that assms exclusive by blast
  then show ?thesis
    by (metis (mono_tags, lifting) card_le_Suc0_iff_eq card.infinite mem_Collect_eq One_nat_def zero_le)
qed

end

lemma reachable_exclusive: "reachable s \<Longrightarrow> holder s d g \<Longrightarrow> holder s d g' \<Longrightarrow> g = g'"
  using reachable_inv unfolding coord_inv_def permits_ok_def by blast

interpretation permit: exclusive_permit reachable holder
  by unfold_locales (rule reachable_exclusive)

lemma connected_holder:
  assumes "reachable s" "connected s d g"
  shows "holder s d g"
proof -
  have "pools_ok (gor s ! g) (g_pc (gor s ! g))"
    using reachable_inv [OF assms(1)] assms(2)
    by (auto simp: coord_inv_def gor_ok_def Let_def connected_def)
  with assms(2) show ?thesis
    by (cases "g_pc (gor s ! g)") (auto simp: connected_def holder_def)
qed

text \<open>Runs of a schedule are runs of the machine.\<close>

lemma reachable_step: "reachable s \<Longrightarrow> sys_step s t \<Longrightarrow> reachable t"
  unfolding reachable_def by (rule rtranclp.rtrancl_into_rtrancl)

lemma reachable_init: "reachable init_sys"
  by (simp add: reachable_def)

lemma reachable_spawn: "reachable s \<Longrightarrow> body_ok 0 b \<Longrightarrow> reachable (spawn_go s d x b)"
  by (erule reachable_step) (simp add: sys_step_def env_step.spawn)

lemma reachable_exec: "exec s sched = Some t \<Longrightarrow> reachable s \<Longrightarrow> reachable t"
proof (induction s sched rule: exec.induct)
  case (2 s g d sched)
  then obtain u where u: "g < length (gor s)" "go_step s g d = Some u" "exec u sched = Some t"
    by (auto simp: bind_eq_Some_conv split: if_splits)
  then have "reachable u"
    using "2.prems"(2) by (metis reachable_step run_step.run sys_step_def)
  with u "2.IH" show ?case by blast
qed simp

text \<open>Two workers on one database: the first holds the permit and has a pool open, the second waits
  at the select.\<close>

definition demo_body :: "event list" where
  "demo_body = [EvPoolNew ''c'', EvQuery ''c'' SqlSchemas, EvRowsClose ''c'' SqlSchemas, EvPoolClose ''c'']"

definition demo_start :: sys where
  "demo_start = spawn_go (spawn_go init_sys ''app'' None demo_body) ''app'' None demo_body"

definition demo_busy :: sys where
  "demo_busy = the (exec demo_start
     [(0, False), (0, False), (0, False), (0, False), (0, False), (1, False), (1, False), (1, False)])"

lemma demo_body_ok: "body_ok 0 demo_body"
  by (simp add: demo_body_def)

lemma reachable_demo_start: "reachable demo_start"
  unfolding demo_start_def by (intro reachable_spawn reachable_init demo_body_ok)

lemmas demo_simps = demo_start_def demo_busy_def spawn_go_def init_sys_def demo_body_def
  NewConnectionCoordinator_def go_step_def goto_def set_mu_def acquire_critical_def chan_make_def
  chan_send_def chan_recv_def

lemma demo_busy_exec:
  "exec demo_start
     [(0, False), (0, False), (0, False), (0, False), (0, False), (1, False), (1, False), (1, False)]
   = Some demo_busy"
  by (simp add: demo_simps)

lemma reachable_demo_busy: "reachable demo_busy"
  by (rule reachable_exec [OF demo_busy_exec reachable_demo_start])

definition demo_end :: sys where
  "demo_end = the (exec (spawn_go init_sys ''app'' None []) (replicate 9 (0, False)))"

lemma demo_end_exec: "exec (spawn_go init_sys ''app'' None []) (replicate 9 (0, False)) = Some demo_end"
  by (simp add: demo_end_def demo_simps numeral_eq_Suc)

lemma reachable_demo_end: "reachable demo_end"
  by (rule reachable_exec [OF demo_end_exec]) (simp add: reachable_spawn reachable_init)

section \<open>Properties\<close>

text \<open>Mutual exclusion. In every reachable state of any number of concurrent workers, at most one
  goroutine is between a successful \<open>Acquire\<close> and the end of the matching \<open>Release\<close> for a database.\<close>

theorem acquire_mutual_exclusion:
  "reachable s \<Longrightarrow> holder s d g \<Longrightarrow> holder s d g' \<Longrightarrow> g = g'"
  by (rule permit.exclusive)

theorem acquire_mutual_exclusion_witness:
  "reachable demo_busy \<and> holder demo_busy ''app'' 0 \<and> \<not> holder demo_busy ''app'' 1"
proof -
  have h: "holder demo_busy ''app'' 0"
    by (simp add: holder_def demo_simps)
  show ?thesis
    using acquire_mutual_exclusion [OF reachable_demo_busy h, of 1] h reachable_demo_busy by auto
qed

text \<open>The purpose of the coordinator. Whatever the interleaving, at most one goroutine at a time has
  a connection pool to a given database open.\<close>

theorem max_one_connection_per_database:
  assumes "reachable s"
  shows "card {g. connected s d g} \<le> 1"
  by (rule permit.at_most_one_user [OF assms connected_holder [OF assms]])

theorem max_one_connection_per_database_witness:
  "reachable demo_busy \<and> connected demo_busy ''app'' 0 \<and> card {g. connected demo_busy ''app'' g} \<le> 1"
proof -
  have "connected demo_busy ''app'' 0"
    by (simp add: connected_def demo_simps)
  then show ?thesis
    using max_one_connection_per_database [OF reachable_demo_busy] reachable_demo_busy by blast
qed

text \<open>C4: no deadlock and no endless run. From a reachable state the goroutines can make at most
  \<open>remaining_work\<close> further steps, and as long as one of them has not returned some goroutine can move:
  every scheduler that keeps running goroutines lets all of them return.\<close>

theorem goroutines_all_return:
  assumes "reachable s" and "(run_step ^^ n) s t"
  shows "n + remaining_work t \<le> remaining_work s \<and> (all_returned t \<or> (\<exists>u. run_step t u))"
proof -
  have inv: "coord_inv s"
    by (rule reachable_inv [OF assms(1)])
  then have "coord_inv t"
    using goroutines.inv_steps relpowp_imp_rtranclp [OF assms(2)] by blast
  then show ?thesis
    using goroutines.run_length [OF assms(2) inv] goroutines.progress by blast
qed

theorem goroutines_all_return_witness:
  "reachable demo_busy \<and> remaining_work demo_busy = 18 \<and> (\<exists>u. run_step demo_busy u)"
proof -
  have "remaining_work demo_busy = 18" "\<not> all_returned demo_busy"
    by (simp_all add: remaining_work_def all_returned_def demo_simps)
  then show ?thesis
    using goroutines_all_return [OF reachable_demo_busy, of 0 demo_busy] reachable_demo_busy by simp
qed

lemma all_returned_pc: "all_returned s \<Longrightarrow> g < length (gor s) \<Longrightarrow> \<exists>err. g_pc (gor s ! g) = Returned err"
  unfolding all_returned_def by (metis nth_mem)

text \<open>C7: no permit is lost and the mutex is not kept. Once every goroutine has returned, with or without
  an error, the mutex is free and the semaphore of every database is empty again.\<close>

theorem permits_all_given_back:
  assumes "reachable s" "all_returned s"
  shows "mu (coord s) = None \<and> (\<forall>d c. dbSemaphores (coord s) d = Some c \<longrightarrow> chans s ! c = 0)"
proof -
  note pc = all_returned_pc [OF assms(2)]
  have "mu (coord s) \<noteq> Some g" for g
  proof
    assume "mu (coord s) = Some g"
    then have "g < length (gor s)" "in_mu (g_pc (gor s ! g))"
      using reachable_inv [OF assms(1)] unfolding coord_inv_def mu_ok_def by blast+
    with pc show False by fastforce
  qed
  moreover have "chans s ! c = 0" if "dbSemaphores (coord s) d = Some c" for d c
  proof -
    have "\<not> holder s d g" for g
      using pc by (auto simp: holder_def) (metis permitted.simps(10))
    moreover have "chans s ! c \<le> 1" "chans s ! c = 1 \<longleftrightarrow> (\<exists>g. holder s d g)"
      using reachable_inv [OF assms(1)] that
      unfolding coord_inv_def sems_ok_def permits_ok_def by blast+
    ultimately show ?thesis by (auto simp: le_Suc_eq)
  qed
  ultimately show ?thesis by blast
qed

theorem permits_all_given_back_witness:
  "reachable demo_end \<and> all_returned demo_end \<and> dbSemaphores (coord demo_end) ''app'' = Some 0 \<and>
   mu (coord demo_end) = None \<and> chans demo_end ! 0 = 0"
proof -
  have h: "all_returned demo_end" "dbSemaphores (coord demo_end) ''app'' = Some 0"
    by (simp_all add: all_returned_def demo_end_def demo_simps numeral_eq_Suc)
  show ?thesis
    using permits_all_given_back [OF reachable_demo_end h(1)] h reachable_demo_end by blast
qed

text \<open>\<open>Release\<close> never blocks. A goroutine at the receive of \<open>Release\<close> always finds its own permit in
  the channel and returns.\<close>

theorem release_never_blocks:
  assumes "reachable s" "g < length (gor s)" "g_pc (gor s ! g) = RRecv x"
  shows "\<exists>t. go_step s g b = Some t \<and> g_pc (gor t ! g) = Returned None"
proof -
  have inv: "coord_inv s"
    by (rule reachable_inv [OF assms(1)])
  obtain c where c: "x = Some c" "dbSemaphores (coord s) (g_db (gor s ! g)) = Some c"
    using coord_inv_pc_ok [OF inv assms(2)] assms(3) by auto
  have "holder s (g_db (gor s ! g)) g"
    using assms(2,3) by (simp add: holder_def)
  then have "chans s ! c = 1"
    using inv c(2) unfolding coord_inv_def permits_ok_def by blast
  then show ?thesis
    using assms(2,3) c(1) by (simp add: go_step_def chan_recv_def gor_goto_nth)
qed

definition demo_releasing :: sys where
  "demo_releasing = the (exec (spawn_go init_sys ''app'' None []) (replicate 8 (0, False)))"

theorem release_never_blocks_witness:
  "g_pc (gor demo_releasing ! 0) = RRecv (Some 0) \<and>
   (\<exists>t. go_step demo_releasing 0 False = Some t \<and> g_pc (gor t ! 0) = Returned None)"
proof -
  have "exec (spawn_go init_sys ''app'' None []) (replicate 8 (0, False)) = Some demo_releasing"
    by (simp add: demo_releasing_def demo_simps numeral_eq_Suc)
  then have r: "reachable demo_releasing"
    by (rule reachable_exec) (simp add: reachable_spawn reachable_init)
  have h: "0 < length (gor demo_releasing)" "g_pc (gor demo_releasing ! 0) = RRecv (Some 0)"
    by (simp_all add: demo_releasing_def demo_simps numeral_eq_Suc)
  show ?thesis
    using release_never_blocks [OF r h] h by blast
qed

text \<open>Cancellation. A goroutine that waits for a permit with a cancelled context can return the
  context's error at once, whether or not the permit is free, and doing so changes no permit.\<close>

lemma acquire_cancelled:
  assumes "g < length (gor s)" "g_pc (gor s ! g) = ASelect c" "g_ctx (gor s ! g) = Some e"
  shows "\<exists>t. go_step s g True = Some t \<and> g_pc (gor t ! g) = Returned (Some e) \<and>
    chans t = chans s \<and> holder t = holder s"
proof -
  have "holder (goto s g (Returned (Some e))) = holder s"
    using assms(1,2) by (simp add: holder_goto_same)
  then show ?thesis
    using assms by (simp add: go_step_def gor_goto_nth)
qed

lemma acquire_cancelled_demo:
  "\<exists>s t. g_pc (gor s ! 1) = ASelect 0 \<and> chans s ! 0 = 1 \<and>
     go_step s 1 True = Some t \<and> g_pc (gor t ! 1) = Returned (Some (ErrorString ''context canceled''))"
proof -
  let ?s = "demo_busy\<lparr>gor := (gor demo_busy)[1 :=
    (gor demo_busy ! 1)\<lparr>g_ctx := Some (ErrorString ''context canceled'')\<rparr>]\<rparr>"
  have h: "1 < length (gor ?s)" "g_pc (gor ?s ! 1) = ASelect 0"
      "g_ctx (gor ?s ! 1) = Some (ErrorString ''context canceled'')" "chans ?s ! 0 = 1"
    by (simp_all add: demo_simps)
  show ?thesis
    using acquire_cancelled [OF h(1-3)] h(2,4) by blast
qed

section \<open>Refinement of an abstract lock per database\<close>

text \<open>The abstract specification: a partial map from databases to the goroutine that owns them. A step is
  labelled with the goroutine that acts and the database it acts on: it takes a database that nobody owns,
  or gives up one that it owns itself.\<close>

inductive lock_step :: "gid \<Rightarrow> string \<Rightarrow> (string \<rightharpoonup> gid) \<Rightarrow> (string \<rightharpoonup> gid) \<Rightarrow> bool" where
  lock_acquire: "L d = None \<Longrightarrow> lock_step g d L (L(d \<mapsto> g))"
| lock_release: "L d = Some g \<Longrightarrow> lock_step g d L (L(d := None))"

definition lock_owner :: "sys \<Rightarrow> string \<rightharpoonup> gid" where
  "lock_owner s d = List.find (holder s d) [0..<length (gor s)]"

lemma lock_owner_iff:
  assumes "coord_inv s"
  shows "lock_owner s d = Some g \<longleftrightarrow> holder s d g"
proof
  assume "holder s d g"
  then have "lock_owner s d \<noteq> None"
    by (auto simp: lock_owner_def find_None_iff holder_def)
  then obtain g' where g': "lock_owner s d = Some g'" by auto
  then have "holder s d g'"
    by (auto simp: lock_owner_def find_Some_iff)
  with \<open>holder s d g\<close> assms g' show "lock_owner s d = Some g"
    unfolding coord_inv_def permits_ok_def by blast
qed (auto simp: lock_owner_def find_Some_iff)

lemma lock_owner_eqI:
  assumes "coord_inv s" "\<And>d g. L d = Some g \<longleftrightarrow> holder s d g"
  shows "lock_owner s = L"
proof
  fix d show "lock_owner s d = L d"
    using lock_owner_iff [OF assms(1)] assms(2) by (metis option.exhaust)
qed

lemma holder_step_cases:
  assumes "coord_inv s" "g < length (gor s)" "go_step s g b = Some t"
  shows "holder t = holder s \<or>
    (\<exists>d. d = g_db (gor s ! g) \<and> (\<forall>h. \<not> holder s d h) \<and>
      (\<forall>d' h. holder t d' h \<longleftrightarrow> d' = d \<and> h = g \<or> holder s d' h)) \<or>
    (\<exists>d. d = g_db (gor s ! g) \<and> holder s d g \<and> (\<forall>d' h. holder t d' h \<longleftrightarrow> d' \<noteq> d \<and> holder s d' h))"
  using assms(3)
proof (cases rule: go_step_cases)
  case (send sem)
  let ?d = "g_db (gor s ! g)"
  have "dbSemaphores (coord s) ?d = Some sem"
    using coord_inv_pc_ok [OF assms(1,2)] send(1) by simp
  then have "\<not> holder s ?d h" for h
    using assms(1) send(2) unfolding coord_inv_def permits_ok_def by (metis less_irrefl)
  moreover have "holder t d' h \<longleftrightarrow> d' = ?d \<and> h = g \<or> holder s d' h" for d' h
    using send assms(2) holder_goto [of g "s\<lparr>chans := x\<rparr>" for x] by (auto simp: holder_def)
  ultimately show ?thesis
    by (intro disjI2 disjI1 exI [of _ ?d]) simp
next
  case (recv sem)
  let ?d = "g_db (gor s ! g)"
  have me: "holder s ?d g"
    using recv(1) assms(2) by (simp add: holder_def)
  have "holder s d' h \<and> h \<noteq> g \<longleftrightarrow> d' \<noteq> ?d \<and> holder s d' h" for d' h
    using me assms(1) unfolding coord_inv_def permits_ok_def holder_def by blast
  then have "holder t d' h \<longleftrightarrow> d' \<noteq> ?d \<and> holder s d' h" for d' h
    using recv(3) assms(2) holder_goto [of g "s\<lparr>chans := x\<rparr>" for x] by auto
  then show ?thesis
    using me by (intro disjI2 exI [of _ ?d]) simp
next
  case (effect e es)
  then show ?thesis
    using assms(2) by (auto simp: fun_eq_iff holder_def nth_list_update)
next
  case recv_nil
  then show ?thesis
    using coord_inv_pc_ok [OF assms(1,2)] by simp
qed (use assms(2) in \<open>auto simp: holder_goto_same\<close>)

text \<open>C3: the coordinator refines the abstract lock. Every step of the program, the creation of
  semaphores and the mutex included, is invisible to the specification, or it is the step of a goroutine
  that acquires its own database while nobody owns it, or that releases its own database as the owner.\<close>

theorem coordinator_refines_lock:
  assumes "reachable s" "sys_step s t"
  shows "lock_owner t = lock_owner s \<or>
    (\<exists>g b. g < length (gor s) \<and> go_step s g b = Some t \<and>
      lock_step g (g_db (gor s ! g)) (lock_owner s) (lock_owner t))"
proof -
  have inv: "coord_inv s" "coord_inv t"
    using assms reachable_inv coord_inv_sys_step by blast+
  note o = lock_owner_iff [OF inv(1)]
  have same: "lock_owner t = lock_owner s" if "holder t = holder s"
    by (rule lock_owner_eqI [OF inv(2)]) (simp add: o that)
  show ?thesis
    using assms(2) unfolding sys_step_def
  proof
    assume "run_step s t"
    then obtain g b where g: "g < length (gor s)" "go_step s g b = Some t"
      by cases blast
    have "holder t = holder s \<or> lock_step g (g_db (gor s ! g)) (lock_owner s) (lock_owner t)"
      using holder_step_cases [OF inv(1) g]
    proof (elim disjE exE conjE)
      fix d assume d: "d = g_db (gor s ! g)" and free: "\<forall>h. \<not> holder s d h"
        and t: "\<forall>d' h. holder t d' h \<longleftrightarrow> d' = d \<and> h = g \<or> holder s d' h"
      have "lock_owner t = (lock_owner s)(d \<mapsto> g)"
        by (rule lock_owner_eqI [OF inv(2)]) (use free t in \<open>auto simp: o\<close>)
      moreover have "lock_owner s d = None"
        using free o by (metis option.exhaust)
      ultimately show ?thesis unfolding d by (simp add: lock_step.lock_acquire)
    next
      fix d assume d: "d = g_db (gor s ! g)" and held: "holder s d g"
        and t: "\<forall>d' h. holder t d' h \<longleftrightarrow> d' \<noteq> d \<and> holder s d' h"
      have "lock_owner t = (lock_owner s)(d := None)"
        by (rule lock_owner_eqI [OF inv(2)]) (use t in \<open>auto simp: o\<close>)
      moreover have "lock_owner s d = Some g"
        using held o by blast
      ultimately show ?thesis unfolding d by (simp add: lock_step.lock_release)
    qed simp
    with g same show ?thesis by blast
  next
    assume "env_step s t"
    then show ?thesis using same holder_env by simp
  qed
qed

theorem coordinator_refines_lock_witness:
  "reachable demo_releasing \<and> lock_owner demo_releasing ''app'' = Some 0 \<and>
   (\<exists>g. lock_step g ''app'' (lock_owner demo_releasing) (lock_owner (the (go_step demo_releasing 0 False))))"
proof -
  let ?t = "the (go_step demo_releasing 0 False)"
  have "exec (spawn_go init_sys ''app'' None []) (replicate 8 (0, False)) = Some demo_releasing"
    by (simp add: demo_releasing_def demo_simps numeral_eq_Suc)
  then have r: "reachable demo_releasing"
    by (rule reachable_exec) (simp add: reachable_spawn reachable_init)
  have h: "0 < length (gor demo_releasing)" "go_step demo_releasing 0 False = Some ?t"
      "lock_owner demo_releasing ''app'' = Some 0" "lock_owner ?t ''app'' = None"
      "length (gor demo_releasing) = 1" "g_db (gor demo_releasing ! 0) = ''app''"
    by (simp_all add: demo_releasing_def demo_simps numeral_eq_Suc lock_owner_def holder_def)
  have "sys_step demo_releasing ?t"
    using h(1,2) by (metis run_step.run sys_step_def)
  from coordinator_refines_lock [OF r this] show ?thesis
    using r h(3-6) by auto
qed

end
