(* ===== verification/Pg_Store.thy ===== *)
theory Pg_Store
  imports Fan_Out Connection_Coordinator
begin

text \<open>
  \<open>internal/extractor/store/store.go\<close>: loading the store, the queries on the default pool, and the
  per-database workers with their fan-out.

  The driver (\<open>github.com/jackc/pgx/v5\<close>) is not part of the repository: it is the parameter \<open>'raw pgx\<close>,
  a record of what its calls return. A pool is identified by its connection string; the rows of a
  query are the raw rows it delivers before it stops and the value of \<open>rows.Err()\<close> afterwards; each
  \<open>rows.Scan\<close> is a function from a raw row to the values for the destinations, in the order of
  the destinations in the source. Nothing is assumed about these functions.

  \<open>acq\<close> gives, for each database, the outcome of \<open>coordinator.Acquire\<close> in the call at hand: \<open>None\<close> for
  nil, \<open>Some e\<close> for the context's error. Which outcomes are possible is the subject of the theory
  \<open>Connection_Coordinator\<close>.
\<close>

section \<open>The driver and the store\<close>

record 'raw rows =
  rw_rows :: "'raw list"
  rw_err :: "go_error option"

record 'raw pgx =
  pgx_New :: "string \<Rightarrow> go_error option"
  pgx_Query :: "string \<Rightarrow> sql \<Rightarrow> 'raw rows go"
  pgx_QueryText :: "string \<Rightarrow> sql \<Rightarrow> string go"
  pgx_QueryServerInfo :: "string \<Rightarrow> sql \<Rightarrow>
    (bool \<times> string \<times> string \<times> i32 \<times> i32 \<times> string \<times> string \<times> string \<times> i64 \<times> i8 \<times> string) go"
  pgx_ScanDatabase :: "'raw \<Rightarrow> (string \<times> u32) go"
  pgx_ScanAvailable :: "'raw \<Rightarrow> (string \<times> string) go"
  pgx_ScanInstalled :: "'raw \<Rightarrow> (u32 \<times> string \<times> string \<times> string) go"
  pgx_ScanSchema :: "'raw \<Rightarrow> (u32 \<times> string \<times> string) go"
  pgx_ScanSequence :: "'raw \<Rightarrow> (u32 \<times> string \<times> string \<times> string \<times> string) go"
  pgx_ScanFunction ::
    "'raw \<Rightarrow> (u32 \<times> string \<times> string \<times> string \<times> string \<times> string \<times> string) go"
  pgx_ScanTable ::
    "'raw \<Rightarrow> (u32 \<times> string \<times> string \<times> string \<times> string option \<times> string option \<times> string option \<times>
      string option \<times> string option \<times> string option) go"

record Store =
  st_pool :: string
  st_connStrFor :: "string \<Rightarrow> string"
  st_coordinator :: ConnectionCoordinator
  st_Stanza :: string
  st_ClusterName :: string

text \<open>\<open>stanzaNamePattern\<close> is \<open>^[a-zA-Z][a-zA-Z0-9_-]{0,62}$\<close>.\<close>

definition is_letter :: "char \<Rightarrow> bool" where
  "is_letter c \<longleftrightarrow> is_lower c \<or> is_upper c"

definition is_stanza_char :: "char \<Rightarrow> bool" where
  "is_stanza_char c \<longleftrightarrow> is_letter c \<or> is_digit c \<or> c = CHR ''_'' \<or> c = CHR ''-''"

definition stanzaNamePattern :: rx where
  "stanzaNamePattern = Cat (Cls is_letter) (Cat (Rep is_stanza_char 0 (Some 62)) EndText)"

definition isValidStanzaName :: "string \<Rightarrow> bool" where
  "isValidStanzaName s = MatchString stanzaNamePattern s"

definition NewStore :: "'raw pgx \<Rightarrow> string \<Rightarrow> (string \<Rightarrow> string) \<Rightarrow> Store go" where
  "NewStore x p connStrFor =
     (case pgx_QueryText x p SqlStanza of
        Inl err \<Rightarrow> Inl (Errorf ''failed to load stanza: %w'' [ArgErr err])
      | Inr stanza \<Rightarrow>
        if \<not> isValidStanzaName stanza then Inl (Errorf ''invalid stanza name: %q'' [ArgStr stanza])
        else (case pgx_QueryText x p SqlClusterName of
            Inl err \<Rightarrow> Inl (Errorf ''failed to load cluster_name: %w'' [ArgErr err])
          | Inr clusterName \<Rightarrow>
            Inr \<lparr>st_pool = p, st_connStrFor = connStrFor, st_coordinator = NewConnectionCoordinator,
                 st_Stanza = stanza, st_ClusterName = clusterName\<rparr>))"

section \<open>Queries on the default pool\<close>

text \<open>The loop \<open>for rows.Next() { rows.Scan(...); append }\<close>: it returns at the first row that cannot be
  scanned, with that error as \<open>wrap\<close> makes it.\<close>

fun scan_loop ::
  "('raw \<Rightarrow> 'r go) \<Rightarrow> (go_error \<Rightarrow> go_error) \<Rightarrow> ('r \<Rightarrow> 'a) \<Rightarrow> 'raw list \<Rightarrow> 'a list \<Rightarrow> 'a list go" where
  "scan_loop scan wrap mk [] acc = Inr acc"
| "scan_loop scan wrap mk (r # rs) acc =
     (case scan r of Inl err \<Rightarrow> Inl (wrap err) | Inr v \<Rightarrow> scan_loop scan wrap mk rs (acc @ [mk v]))"

definition ListDatabases :: "'raw pgx \<Rightarrow> Store \<Rightarrow> Database list go eff" where
  "ListDatabases x s =
     (case pgx_Query x (st_pool s) SqlDatabases of
        Inl err \<Rightarrow> pure (Inl err)
      | Inr rows \<Rightarrow>
        emit (EvQuery (st_pool s) SqlDatabases) (defer_ev (EvRowsClose (st_pool s) SqlDatabases)
          (pure (scan_loop (pgx_ScanDatabase x) (\<lambda>err. err)
             (\<lambda>(name, oid). \<lparr>db_Name = name, db_Oid = oid\<rparr>) (rw_rows rows) []))))"

definition GetServerInfo :: "'raw pgx \<Rightarrow> Store \<Rightarrow> ServerInfo go" where
  "GetServerInfo x s =
     (case pgx_QueryServerInfo x (st_pool s) SqlServerInfo of
        Inl err \<Rightarrow> Inl err
      | Inr (inRecovery, readOnly, ssl, port, maxConn, archive, wal, dataDir, sysId, timeline, version) \<Rightarrow>
        Inr \<lparr>si_PgVersion = version, si_IsReadOnly = readOnly, si_SslEnabled = ssl,
             si_ArchiveMode = archive, si_DataDirectory = dataDir, si_WalLevel = wal,
             si_IsInRecovery = inRecovery, si_TimelineID = timeline, si_Port = port,
             si_MaxConnections = maxConn, si_SystemIdentifier = sysId\<rparr>)"

definition listAvailableExtensions :: "'raw pgx \<Rightarrow> Store \<Rightarrow> AvailableExtension list go eff" where
  "listAvailableExtensions x s =
     (case pgx_Query x (st_pool s) SqlAvailableExtensions of
        Inl err \<Rightarrow> pure (Inl (Errorf ''query available extensions: %w'' [ArgErr err]))
      | Inr rows \<Rightarrow>
        emit (EvQuery (st_pool s) SqlAvailableExtensions)
         (defer_ev (EvRowsClose (st_pool s) SqlAvailableExtensions)
          (pure (case scan_loop (pgx_ScanAvailable x)
                   (\<lambda>err. Errorf ''scan available extension: %w'' [ArgErr err])
                   (\<lambda>(name, version). \<lparr>ae_Name = name, ae_DefaultVersion = version\<rparr>) (rw_rows rows) [] of
               Inl err \<Rightarrow> Inl err
             | Inr extensions \<Rightarrow>
               (case rw_err rows of
                  Some err \<Rightarrow> Inl (Errorf ''iterate available extensions: %w'' [ArgErr err])
                | None \<Rightarrow> Inr extensions)))))"

section \<open>Workers\<close>

text \<open>The common frame of the \<open>list...ForDatabase\<close> functions: acquire the permit, connect, query, read;
  \<open>Release\<close>, \<open>pool.Close\<close> and \<open>rows.Close\<close> are deferred as soon as there is something to undo. The frame is
  written once here; each worker instantiates it with its own messages, statement and reading
  code.\<close>

definition database_error :: "string \<Rightarrow> string \<Rightarrow> go_error \<Rightarrow> go_error" where
  "database_error template dbName err = Errorf template [ArgStr dbName, ArgErr err]"

definition with_database ::
  "'raw pgx \<Rightarrow> Store \<Rightarrow> (string \<Rightarrow> go_error option) \<Rightarrow> string \<Rightarrow> string \<Rightarrow> sql \<Rightarrow>
   ('raw rows \<Rightarrow> 'a go) \<Rightarrow> string \<Rightarrow> 'a go eff" where
  "with_database x s acq connect_msg query_msg query read dbName =
     (case acq dbName of
        Some err \<Rightarrow> pure (Inl (database_error ''acquire connection to %q: %w'' dbName err))
      | None \<Rightarrow> emit (EvAcquire dbName) (defer_ev (EvRelease dbName)
          (let pool = st_connStrFor s dbName in
           case pgx_New x pool of
             Some err \<Rightarrow> pure (Inl (database_error connect_msg dbName err))
           | None \<Rightarrow> emit (EvPoolNew pool) (defer_ev (EvPoolClose pool)
               (case pgx_Query x pool query of
                  Inl err \<Rightarrow> pure (Inl (database_error query_msg dbName err))
                | Inr rows \<Rightarrow> emit (EvQuery pool query) (defer_ev (EvRowsClose pool query)
                    (pure (read rows))))))))"

text \<open>The scan loop followed by the check of \<open>rows.Err()\<close>.\<close>

definition read_rows ::
  "('raw \<Rightarrow> 'r go) \<Rightarrow> string \<Rightarrow> string \<Rightarrow> ('r \<Rightarrow> 'a) \<Rightarrow> string \<Rightarrow> 'raw rows \<Rightarrow> 'a list go" where
  "read_rows scan scan_msg iterate_msg mk dbName rows =
     (case scan_loop scan (database_error scan_msg dbName) mk (rw_rows rows) [] of
        Inl err \<Rightarrow> Inl err
      | Inr vs \<Rightarrow> (case rw_err rows of
          Some err \<Rightarrow> Inl (database_error iterate_msg dbName err)
        | None \<Rightarrow> Inr vs))"

definition listFunctionsForDatabase ::
  "'raw pgx \<Rightarrow> Store \<Rightarrow> (string \<Rightarrow> go_error option) \<Rightarrow> string \<Rightarrow> Function list go eff" where
  "listFunctionsForDatabase x s acq dbName =
     with_database x s acq ''connect to %q for functions: %w'' ''query functions in database %q: %w''
       SqlFunctions
       (read_rows (pgx_ScanFunction x) ''query functions in database %q: %w''
          ''iterate functions in database %q: %w''
          (\<lambda>(oid, name, schema, owner, language, returnType, identityArguments).
             \<lparr>fn_Name = name, fn_Schema = schema, fn_Owner = owner, fn_Database = dbName,
              fn_Language = language, fn_ReturnType = returnType,
              fn_IdentityArguments = identityArguments, fn_Oid = oid\<rparr>) dbName)
       dbName"

definition listSequencesForDatabase ::
  "'raw pgx \<Rightarrow> Store \<Rightarrow> (string \<Rightarrow> go_error option) \<Rightarrow> string \<Rightarrow> Sequence list go eff" where
  "listSequencesForDatabase x s acq dbName =
     with_database x s acq ''connect to %q for installed extensions: %w''
       ''query installed extensions in database %q: %w'' SqlSequences
       (read_rows (pgx_ScanSequence x) ''query sequences in database %q: %w''
          ''iterate installed extensions in database %q: %w''
          (\<lambda>(oid, name, schema, owner, dataType).
             \<lparr>seq_Name = name, seq_Schema = schema, seq_Owner = owner, seq_Database = dbName,
              seq_DataType = dataType, seq_Oid = oid\<rparr>) dbName)
       dbName"

definition listInstalledExtensionsForDatabase ::
  "'raw pgx \<Rightarrow> Store \<Rightarrow> (string \<Rightarrow> go_error option) \<Rightarrow> string \<Rightarrow> InstalledExtension list go eff" where
  "listInstalledExtensionsForDatabase x s acq dbName =
     with_database x s acq ''connect to %q for installed extensions: %w''
       ''query installed extensions in database %q: %w'' SqlInstalledExtensions
       (read_rows (pgx_ScanInstalled x) ''query installed extensions in database %q: %w''
          ''iterate installed extensions in database %q: %w''
          (\<lambda>(oid, name, version, schema).
             \<lparr>ie_Name = name, ie_Version = version, ie_Schema = schema, ie_Database = dbName,
              ie_Oid = oid\<rparr>) dbName)
       dbName"

definition listSchemasForDatabase ::
  "'raw pgx \<Rightarrow> Store \<Rightarrow> (string \<Rightarrow> go_error option) \<Rightarrow> string \<Rightarrow> Schema list go eff" where
  "listSchemasForDatabase x s acq dbName =
     with_database x s acq ''connect to %q for schemas: %w'' ''query schemas in database %q: %w''
       SqlSchemas
       (read_rows (pgx_ScanSchema x) ''query schemas in database %q: %w''
          ''iterate schemas in database %q: %w''
          (\<lambda>(oid, name, owner).
             \<lparr>sch_Database = dbName, sch_Name = name, sch_Owner = owner, sch_Oid = oid\<rparr>) dbName)
       dbName"

section \<open>Aggregated lists\<close>

text \<open>\<open>sched\<close> is the order in which the workers' results arrive.\<close>

definition ListSchemas ::
  "'raw pgx \<Rightarrow> Store \<Rightarrow> (string \<Rightarrow> go_error option) \<Rightarrow> nat list \<Rightarrow> Schema list go" where
  "ListSchemas x s acq sched =
     (case snd (ListDatabases x s) of
        Inl err \<Rightarrow> Inl err
      | Inr databases \<Rightarrow>
        (case forEachDatabase sched databases (\<lambda>d. snd (listSchemasForDatabase x s acq d)) of
           Inl err \<Rightarrow> Inl err
         | Inr allSchemas \<Rightarrow> Inr allSchemas))"

definition ListExtensions ::
  "'raw pgx \<Rightarrow> Store \<Rightarrow> (string \<Rightarrow> go_error option) \<Rightarrow> nat list \<Rightarrow>
   (AvailableExtension list \<times> InstalledExtension list) go" where
  "ListExtensions x s acq sched =
     (case snd (listAvailableExtensions x s) of
        Inl err \<Rightarrow> Inl err
      | Inr availableExtensions \<Rightarrow>
        (case snd (ListDatabases x s) of
           Inl err \<Rightarrow> Inl err
         | Inr databases \<Rightarrow>
           (case forEachDatabase sched databases
                  (\<lambda>d. snd (listInstalledExtensionsForDatabase x s acq d)) of
              Inl err \<Rightarrow> Inl err
            | Inr installedExtensions \<Rightarrow> Inr (availableExtensions, installedExtensions))))"

definition ListSequences ::
  "'raw pgx \<Rightarrow> Store \<Rightarrow> (string \<Rightarrow> go_error option) \<Rightarrow> nat list \<Rightarrow> Sequence list go" where
  "ListSequences x s acq sched =
     (case snd (ListDatabases x s) of
        Inl err \<Rightarrow> Inl err
      | Inr databases \<Rightarrow>
        (case forEachDatabase sched databases (\<lambda>d. snd (listSequencesForDatabase x s acq d)) of
           Inl err \<Rightarrow> Inl err
         | Inr seqs \<Rightarrow> Inr seqs))"

definition ListFunctions ::
  "'raw pgx \<Rightarrow> Store \<Rightarrow> (string \<Rightarrow> go_error option) \<Rightarrow> nat list \<Rightarrow> Function list go" where
  "ListFunctions x s acq sched =
     (case snd (ListDatabases x s) of
        Inl err \<Rightarrow> Inl err
      | Inr databases \<Rightarrow>
        (case forEachDatabase sched databases (\<lambda>d. snd (listFunctionsForDatabase x s acq d)) of
           Inl err \<Rightarrow> Inl err
         | Inr seqs \<Rightarrow> Inr seqs))"

section \<open>Stanza names\<close>

lemma takeWhile_length_all: "length xs \<le> length (takeWhile p xs) \<longleftrightarrow> list_all p xs"
  by (induction xs) auto

text \<open>C30: \<open>isValidStanzaName\<close> accepts exactly the names of 1 to 63 bytes that start with an ASCII letter and
  continue with ASCII letters, digits, underscores and hyphens. In particular a valid stanza passed
  to \<open>pgbackrest --stanza=...\<close> contains no blank, quote, slash or equals sign.\<close>

theorem isValidStanzaName_iff:
  "isValidStanzaName s \<longleftrightarrow>
    (\<exists>c cs. s = c # cs \<and> is_letter c \<and> list_all is_stanza_char cs \<and> length s \<le> 63)"
proof -
  have "(\<exists>k \<le> min 62 (length (takeWhile is_stanza_char cs)). drop k cs = []) \<longleftrightarrow>
      list_all is_stanza_char cs \<and> length cs \<le> 62" for cs
    by (auto simp flip: takeWhile_length_all)
  then have "(\<exists>k \<in> {0..<Suc (min 62 (length (takeWhile is_stanza_char cs)))}. drop k cs = []) \<longleftrightarrow>
      list_all is_stanza_char cs \<and> length cs \<le> 62" for cs
    by (metis atLeastLessThan_iff less_Suc_eq_le zero_le)
  then show ?thesis
    unfolding isValidStanzaName_def MatchString_def stanzaNamePattern_def
    by (cases s) (auto simp del: upt_Suc)
qed

lemma NewStore_fields:
  "NewStore x p cs = Inr s \<Longrightarrow> st_connStrFor s = cs \<and> st_coordinator s = NewConnectionCoordinator"
  by (auto simp: NewStore_def split: sum.splits if_splits)

section \<open>The scan loop\<close>

lemma scan_loop_Inr_iff:
  "scan_loop scan wrap mk rs acc = Inr ys \<longleftrightarrow>
    (\<exists>vs. map scan rs = map Inr vs \<and> ys = acc @ map mk vs)"
proof (induction rs arbitrary: acc)
  case (Cons r rs)
  show ?case
  proof (cases "scan r")
    case (Inr v)
    with Cons show ?thesis
      by (auto simp: Cons_eq_map_conv)
  qed (auto simp: Cons_eq_map_conv)
qed auto

lemma scan_loop_InlD:
  "scan_loop scan wrap mk rs acc = Inl e \<Longrightarrow> \<exists>r \<in> set rs. \<exists>err. scan r = Inl err \<and> e = wrap err"
  by (induction rs arbitrary: acc) (auto split: sum.splits)

lemma read_rows_Inr_iff:
  "read_rows scan sm im mk d rows = Inr ys \<longleftrightarrow>
    rw_err rows = None \<and> (\<exists>vs. map scan (rw_rows rows) = map Inr vs \<and> ys = map mk vs)"
proof -
  have "read_rows scan sm im mk d rows = Inr ys \<longleftrightarrow>
      rw_err rows = None \<and> scan_loop scan (database_error sm d) mk (rw_rows rows) [] = Inr ys"
    by (auto simp: read_rows_def split: sum.splits option.splits)
  then show ?thesis
    by (simp add: scan_loop_Inr_iff)
qed

lemma read_rows_InlD:
  "read_rows scan sm im mk d rows = Inl e \<Longrightarrow>
    \<exists>err. e = database_error sm d err \<or> e = database_error im d err"
  by (auto simp: read_rows_def split: sum.splits option.splits dest!: scan_loop_InlD)

lemma read_rows_mk:
  "read_rows scan sm im mk d rows = Inr ys \<Longrightarrow> y \<in> set ys \<Longrightarrow> \<exists>v. y = mk v"
  by (auto simp: read_rows_Inr_iff)

section \<open>The frame of the workers\<close>

text \<open>The effects of a worker between \<open>Acquire\<close> and \<open>Release\<close>, and the shape of its trace.\<close>

definition worker_body :: "event list \<Rightarrow> event list" where
  "worker_body tr = butlast (tl tr)"

definition bracketed :: "string \<Rightarrow> event list \<Rightarrow> bool" where
  "bracketed d tr \<longleftrightarrow> tr = EvAcquire d # worker_body tr @ [EvRelease d] \<and> body_ok 0 (worker_body tr)"

lemma with_database_failed [worker_laws]:
  "acq d = Some e \<Longrightarrow> with_database x s acq cm qm q rd d =
    ([], Inl (database_error ''acquire connection to %q: %w'' d e))"
  by (simp add: with_database_def pure_def)

lemma with_database_bracketed [worker_laws]:
  "acq d = None \<Longrightarrow> bracketed d (fst (with_database x s acq cm qm q rd d))"
  by (simp add: with_database_def bracketed_def worker_body_def butlast_append Let_def
      split: option.splits sum.splits)

text \<open>A worker asks only for the permit of its own database.\<close>

lemma with_database_own_permit:
  "acq d = acq' d \<Longrightarrow> with_database x s acq cm qm q rd d = with_database x s acq' cm qm q rd d"
  by (simp add: with_database_def)

lemma with_database_Inr_iff:
  "snd (with_database x s acq cm qm q rd d) = Inr v \<longleftrightarrow>
    acq d = None \<and> pgx_New x (st_connStrFor s d) = None \<and>
    (\<exists>rows. pgx_Query x (st_connStrFor s d) q = Inr rows \<and> rd rows = Inr v)"
  by (simp add: with_database_def Let_def split: option.splits sum.splits)

lemma with_database_pool: "EvPoolNew c \<in> set (fst (with_database x s acq cm qm q rd d)) \<Longrightarrow> c = st_connStrFor s d"
  by (auto simp: with_database_def Let_def split: option.splits sum.splits)

lemma bracketed_body: "bracketed d tr \<Longrightarrow> body_ok 0 (worker_body tr)"
  by (simp add: bracketed_def)

lemma with_database_InlD:
  "snd (with_database x s acq cm qm q rd d) = Inl e \<Longrightarrow>
    (\<exists>t err. e = database_error t d err \<and> t \<in> {''acquire connection to %q: %w'', cm, qm}) \<or>
    (\<exists>rows. rd rows = Inl e)"
  by (auto simp: with_database_def Let_def split: option.splits sum.splits)

section \<open>The contract of a worker\<close>

text \<open>
  What \<open>forEachDatabase\<close> asks of its \<open>fn\<close> (\<^emph>\<open>make sure that \<open>fn\<close> honours the coordinator\<close>) and what
  every worker of the store provides: without a permit it does nothing but report the failure;
  with one, it acts only between \<open>Acquire\<close> and \<open>Release\<close> and closes what it opens; it asks for no other
  permit; its rows carry the name of its database; its errors wrap their cause.
\<close>

locale database_worker =
  fixes worker :: "(string \<Rightarrow> go_error option) \<Rightarrow> string \<Rightarrow> 'a list go eff"
    and db_of :: "'a \<Rightarrow> string"
  assumes no_permit: "acq d = Some e \<Longrightarrow>
      worker acq d = ([], Inl (database_error ''acquire connection to %q: %w'' d e))"
    and permit_bracketed: "acq d = None \<Longrightarrow> bracketed d (fst (worker acq d))"
    and own_permit: "acq d = acq' d \<Longrightarrow> worker acq d = worker acq' d"
    and tagged: "snd (worker acq d) = Inr rs \<Longrightarrow> r \<in> set rs \<Longrightarrow> db_of r = d"
    and wraps_cause: "snd (worker acq d) = Inl e \<Longrightarrow> \<exists>err. unwrap e = Some err"
begin

lemma filter_tagged:
  assumes "distinct (map db_Name dbs)" "db \<in> set dbs"
    and "\<forall>db \<in> set dbs. \<exists>xs. snd (worker acq (db_Name db)) = Inr xs"
  shows "filter (\<lambda>r. db_of r = db_Name db)
      (concat (map (\<lambda>db. projr (snd (worker acq (db_Name db)))) dbs)) =
    projr (snd (worker acq (db_Name db)))"
  using assms
proof (induction dbs)
  case (Cons a dbs)
  let ?rows = "\<lambda>db. projr (snd (worker acq (db_Name db)))"
  have tag: "db_of r = db_Name db'" if "db' \<in> set (a # dbs)" "r \<in> set (?rows db')" for r db'
    using Cons.prems(3) that tagged [of acq "db_Name db'"] by fastforce
  show ?case
  proof (cases "db = a")
    case True
    have "filter (\<lambda>r. db_of r = db_Name db) (concat (map ?rows dbs)) = []"
      using Cons.prems(1) True tag by (auto simp: filter_empty_conv image_iff) (metis)
    moreover have "filter (\<lambda>r. db_of r = db_Name db) (?rows a) = ?rows a"
      using tag [of a] True by (simp add: filter_id_conv)
    ultimately show ?thesis
      using True by simp
  next
    case False
    then have "db_Name a \<noteq> db_Name db"
      using Cons.prems(1,2) by auto
    then have "filter (\<lambda>r. db_of r = db_Name db) (?rows a) = []"
      using tag [of a] by (auto simp: filter_empty_conv)
    with Cons False show ?thesis by simp
  qed
qed simp

text \<open>A successful fan-out over databases with distinct names can be taken apart again.\<close>

lemma fan_out_partition:
  assumes "is_schedule sched dbs" "distinct (map db_Name dbs)"
    and ok: "forEachDatabase sched dbs (\<lambda>d. snd (worker acq d)) = Inr rs"
  shows "\<forall>db \<in> set dbs. snd (worker acq (db_Name db)) = Inr (filter (\<lambda>r. db_of r = db_Name db) rs)"
    and "\<forall>r \<in> set rs. db_of r \<in> db_Name ` set dbs"
proof -
  let ?arr = "arrival sched dbs"
  have m: "mset ?arr = mset dbs"
    by (rule mset_arrival [OF assms(1)])
  then have s: "set ?arr = set dbs"
    by (metis set_mset_mset)
  obtain xss where x: "map (\<lambda>db. snd (worker acq (db_Name db))) ?arr = map Inr xss" "rs = concat xss"
    using ok unfolding forEachDatabase_Inr_iff by blast
  have all: "\<exists>xs. snd (worker acq (db_Name db)) = Inr xs" if "db \<in> set ?arr" for db
  proof -
    have "snd (worker acq (db_Name db)) \<in> set (map Inr xss)"
      unfolding x(1) [symmetric] using that by auto
    then show ?thesis by auto
  qed
  have "map projr (map (\<lambda>db. snd (worker acq (db_Name db))) ?arr) = xss"
    unfolding x(1) by (simp add: o_def)
  then have rs: "rs = concat (map (\<lambda>db. projr (snd (worker acq (db_Name db)))) ?arr)"
    using x(2) by (simp add: o_def)
  have "mset (map db_Name ?arr) = mset (map db_Name dbs)"
    using m by simp
  then have "distinct (map db_Name ?arr)"
    using assms(2) mset_eq_imp_distinct_iff by blast
  then show "\<forall>db \<in> set dbs. snd (worker acq (db_Name db)) = Inr (filter (\<lambda>r. db_of r = db_Name db) rs)"
    using filter_tagged [of ?arr _ acq] all s unfolding rs by fastforce
  show "\<forall>r \<in> set rs. db_of r \<in> db_Name ` set dbs"
    using all s tagged unfolding rs by fastforce
qed

end

lemma forEachDatabase_set:
  assumes "is_schedule sched dbs" "forEachDatabase sched dbs w = Inr rs"
  shows "set rs = (\<Union>db \<in> set dbs. set (projr (w (db_Name db))))"
    and "\<forall>db \<in> set dbs. \<exists>xs. w (db_Name db) = Inr xs"
proof -
  obtain xss where xss: "map (\<lambda>db. w (db_Name db)) (arrival sched dbs) = map Inr xss" "rs = concat xss"
    using assms(2) unfolding forEachDatabase_Inr_iff by blast
  have all: "(\<lambda>db. w (db_Name db)) ` set dbs = Inr ` set xss"
    using arg_cong [OF xss(1), of set] set_arrival [OF assms(1)] by simp
  then show "\<forall>db \<in> set dbs. \<exists>xs. w (db_Name db) = Inr xs"
    by blast
  have "set xss = (\<lambda>db. projr (w (db_Name db))) ` set dbs"
    using arg_cong [OF all, of "image projr"] by (simp add: image_image)
  then show "set rs = (\<Union>db \<in> set dbs. set (projr (w (db_Name db))))"
    by (simp add: xss(2))
qed

text \<open>The workers of \<open>store.go\<close> also name the database in every error.\<close>

locale naming_worker = database_worker worker db_of
  for worker :: "(string \<Rightarrow> go_error option) \<Rightarrow> string \<Rightarrow> 'a list go eff" and db_of :: "'a \<Rightarrow> string" +
  assumes names_cause: "snd (worker acq d) = Inl e \<Longrightarrow> \<exists>t err. e = database_error t d err \<and> unwrap e = Some err"
begin

text \<open>The error of a failed fan-out lists errors that name the databases they come from.\<close>

lemma fan_out_errors_named:
  assumes "is_schedule sched dbs" "forEachDatabase sched dbs (\<lambda>d. snd (worker acq d)) = Inl e"
  obtains es where "e = Errorf ''failed to query %d/%d databases: %v''
      [ArgInt (int (length es)), ArgInt (int (length dbs)), ArgErrs es]"
    "\<forall>e \<in> set es. \<exists>db \<in> set dbs. \<exists>t err. e = database_error t (db_Name db) err"
proof
  let ?es = "lefts (map (\<lambda>db. snd (worker acq (db_Name db))) (arrival sched dbs))"
  show "e = Errorf ''failed to query %d/%d databases: %v''
      [ArgInt (int (length ?es)), ArgInt (int (length dbs)), ArgErrs ?es]"
    using assms(2) unfolding forEachDatabase_Inl_iff Let_def by blast
  show "\<forall>e \<in> set ?es. \<exists>db \<in> set dbs. \<exists>t err. e = database_error t (db_Name db) err"
    using names_cause set_arrival [OF assms(1)] by (auto simp: in_lefts_iff) (metis)
qed

end

lemma unwrap_database_error:
  "verbs t = ''qw'' \<Longrightarrow> unwrap (database_error t d err) = Some err"
  by (simp add: database_error_def unwrap_Errorf)

text \<open>The four workers of \<open>store.go\<close>, by the laws of their common frame.\<close>

lemma ex_unwrap: "\<exists>t err. e = database_error t d err \<and> unwrap e = Some err \<Longrightarrow> \<exists>err. unwrap e = Some err"
  by blast

lemma frame_wraps_cause:
  assumes "snd (with_database x s acq cm qm q (read_rows scan sm im mk d) d) = Inl e"
    and "verbs cm = ''qw''" "verbs qm = ''qw''" "verbs sm = ''qw''" "verbs im = ''qw''"
  shows "\<exists>t err. e = database_error t d err \<and> unwrap e = Some err"
  using with_database_InlD [OF assms(1)] assms(2-)
  by (auto dest!: read_rows_InlD simp: unwrap_database_error)

lemmas frame_cause = frame_wraps_cause [THEN ex_unwrap]

lemma frame_rows:
  assumes "snd (with_database x s acq cm qm q (read_rows scan sm im mk d) d) = Inr rs" "r \<in> set rs"
  obtains v where "r = mk v"
  using assms unfolding with_database_Inr_iff by (meson read_rows_mk)

interpretation functions_worker:
  naming_worker "listFunctionsForDatabase x s" fn_Database for x :: "'raw pgx" and s
  by unfold_locales (auto simp: listFunctionsForDatabase_def worker_laws intro: frame_wraps_cause frame_cause with_database_own_permit
      elim!: frame_rows)

interpretation sequences_worker:
  naming_worker "listSequencesForDatabase x s" seq_Database for x :: "'raw pgx" and s
  by unfold_locales (auto simp: listSequencesForDatabase_def worker_laws intro: frame_wraps_cause frame_cause with_database_own_permit
      elim!: frame_rows)

interpretation extensions_worker:
  naming_worker "listInstalledExtensionsForDatabase x s" ie_Database for x :: "'raw pgx" and s
  by unfold_locales (auto simp: listInstalledExtensionsForDatabase_def worker_laws
      intro: frame_wraps_cause frame_cause with_database_own_permit elim!: frame_rows)

interpretation schemas_worker:
  naming_worker "listSchemasForDatabase x s" sch_Database for x :: "'raw pgx" and s
  by unfold_locales (auto simp: listSchemasForDatabase_def worker_laws intro: frame_wraps_cause frame_cause with_database_own_permit
      elim!: frame_rows)


section \<open>Properties\<close>

text \<open>\<open>NewStore\<close> returns a store exactly when both settings can be loaded and the stanza name is valid;
  the store then carries them, and a coordinator without semaphores. An invalid stanza name is
  reported before the cluster name is read.\<close>

theorem NewStore_ok_iff:
  "NewStore x p cs = Inr s \<longleftrightarrow>
    pgx_QueryText x p SqlStanza = Inr (st_Stanza s) \<and> isValidStanzaName (st_Stanza s) \<and>
    pgx_QueryText x p SqlClusterName = Inr (st_ClusterName s) \<and>
    st_pool s = p \<and> st_connStrFor s = cs \<and>
    dbSemaphores (st_coordinator s) = Map.empty \<and> mu (st_coordinator s) = None"
  by (cases s; cases "st_coordinator s")
    (auto simp: NewStore_def NewConnectionCoordinator_def split: sum.splits)

text \<open>What it means that an aggregated list consists of the workers' lists.\<close>

definition partitions :: "(string \<Rightarrow> 'a list go) \<Rightarrow> ('a \<Rightarrow> string) \<Rightarrow> Database list \<Rightarrow> 'a list \<Rightarrow> bool" where
  "partitions f db_of dbs rs \<longleftrightarrow>
     (\<forall>db \<in> set dbs. f (db_Name db) = Inr (filter (\<lambda>r. db_of r = db_Name db) rs)) \<and>
     (\<forall>r \<in> set rs. db_of r \<in> db_Name ` set dbs)"

text \<open>The aggregated lists are complete and correctly attributed. For databases with distinct names and
  every order of arrival, the rows of a successful \<open>ListSchemas\<close>, \<open>ListSequences\<close>, \<open>ListFunctions\<close> or
  \<open>ListExtensions\<close> that carry the name of a database are exactly the rows its worker returned, in the
  same order, and no row carries another name.\<close>

theorem aggregated_lists_partition:
  assumes "snd (ListDatabases x s) = Inr dbs" "is_schedule sched dbs" "distinct (map db_Name dbs)"
  shows "(\<forall>schemas. ListSchemas x s acq sched = Inr schemas \<longrightarrow>
      partitions (\<lambda>d. snd (listSchemasForDatabase x s acq d)) sch_Database dbs schemas) \<and>
    (\<forall>seqs. ListSequences x s acq sched = Inr seqs \<longrightarrow>
      partitions (\<lambda>d. snd (listSequencesForDatabase x s acq d)) seq_Database dbs seqs) \<and>
    (\<forall>fns. ListFunctions x s acq sched = Inr fns \<longrightarrow>
      partitions (\<lambda>d. snd (listFunctionsForDatabase x s acq d)) fn_Database dbs fns) \<and>
    (\<forall>avail inst. ListExtensions x s acq sched = Inr (avail, inst) \<longrightarrow>
      partitions (\<lambda>d. snd (listInstalledExtensionsForDatabase x s acq d)) ie_Database dbs inst)"
  unfolding partitions_def
  using assms(1) schemas_worker.fan_out_partition [OF assms(2,3), of x s acq]
    sequences_worker.fan_out_partition [OF assms(2,3), of x s acq]
    functions_worker.fan_out_partition [OF assms(2,3), of x s acq]
    extensions_worker.fan_out_partition [OF assms(2,3), of x s acq]
  by (simp add: ListSchemas_def ListSequences_def ListFunctions_def ListExtensions_def
      split: sum.splits)

text \<open>A driver and a store to try the definitions on: a server with the databases \<open>app\<close> and \<open>bi\<close> and one
  row in every list, whose name is the connection string it was read from.\<close>

definition demo_pgx :: "(u32 \<times> string) pgx" where
  "demo_pgx = \<lparr>pgx_New = (\<lambda>c. None),
     pgx_Query = (\<lambda>c q. Inr \<lparr>rw_rows = (if q = SqlDatabases then [(5, ''app''), (6, ''bi'')] else [(1, c)]),
                          rw_err = None\<rparr>),
     pgx_QueryText = (\<lambda>c q. Inr (if q = SqlStanza then ''main'' else ''cluster-1'')),
     pgx_QueryServerInfo = (\<lambda>c q. Inr (False, ''off'', ''on'', 5432, 100, ''off'', ''replica'', ''/data'', 7, 1,
                          ''PostgreSQL 15.13 (Debian)'')),
     pgx_ScanDatabase = (\<lambda>(oid, n). Inr (n, oid)),
     pgx_ScanAvailable = (\<lambda>(oid, n). Inr (n, ''1.0'')),
     pgx_ScanInstalled = (\<lambda>(oid, n). Inr (oid, n, ''1.0'', ''public'')),
     pgx_ScanSchema = (\<lambda>(oid, n). Inr (oid, n, ''postgres'')),
     pgx_ScanSequence = (\<lambda>(oid, n). Inr (oid, n, ''public'', ''postgres'', ''int8'')),
     pgx_ScanFunction = (\<lambda>(oid, n). Inr (oid, n, ''public'', ''postgres'', ''sql'', ''text'', [])),
     pgx_ScanTable = (\<lambda>(oid, n). Inr (oid, n, ''public'', ''postgres'', None, Some ''{}'', Some ''[]'', None, None,
                          Some ''{}''))\<rparr>"

definition demo_store :: Store where
  "demo_store = \<lparr>st_pool = ''pg:postgres'', st_connStrFor = (\<lambda>d. ''pg:'' @ d),
     st_coordinator = NewConnectionCoordinator, st_Stanza = ''main'', st_ClusterName = ''cluster-1''\<rparr>"

lemmas demo_store_simps = demo_pgx_def demo_store_def ListDatabases_def ListSchemas_def
  listSchemasForDatabase_def with_database_def read_rows_def forEachDatabase_def fan_result_def
  demo_dbs_def database_error_def Let_def

lemma demo_ListDatabases: "snd (ListDatabases demo_pgx demo_store) = Inr demo_dbs"
  by (simp add: demo_store_simps)

lemma demo_dbs_schedule: "is_schedule [1, 0] demo_dbs" "distinct (map db_Name demo_dbs)"
  by (simp_all add: is_schedule_def demo_dbs_def)

definition demo_schemas :: "Schema list" where
  "demo_schemas =
     [\<lparr>sch_Database = ''bi'', sch_Name = ''pg:bi'', sch_Owner = ''postgres'', sch_Oid = 1\<rparr>,
      \<lparr>sch_Database = ''app'', sch_Name = ''pg:app'', sch_Owner = ''postgres'', sch_Oid = 1\<rparr>]"

lemma demo_ListSchemas: "ListSchemas demo_pgx demo_store (\<lambda>_. None) [1, 0] = Inr demo_schemas"
  by (simp add: demo_store_simps demo_schemas_def)

theorem aggregated_lists_partition_witness:
  "ListSchemas demo_pgx demo_store (\<lambda>_. None) [1, 0] = Inr demo_schemas \<and>
   partitions (\<lambda>d. snd (listSchemasForDatabase demo_pgx demo_store (\<lambda>_. None) d)) sch_Database
     demo_dbs demo_schemas"
  using aggregated_lists_partition [OF demo_ListDatabases demo_dbs_schedule] demo_ListSchemas by blast

text \<open>C22: the schema list is all or nothing. Once the databases are known it is returned exactly when, for
  every database, the permit is granted, the connection and the query succeed, every row can be
  scanned and the iteration ends without an error; one database that cannot be read makes the whole
  request fail.\<close>

theorem ListSchemas_all_or_nothing:
  assumes "snd (ListDatabases x s) = Inr dbs" "is_schedule sched dbs"
  shows "(\<exists>rs. ListSchemas x s acq sched = Inr rs) \<longleftrightarrow>
    (\<forall>db \<in> set dbs. acq (db_Name db) = None \<and>
      pgx_New x (st_connStrFor s (db_Name db)) = None \<and>
      (\<exists>rows. pgx_Query x (st_connStrFor s (db_Name db)) SqlSchemas = Inr rows \<and>
        rw_err rows = None \<and> (\<forall>r \<in> set (rw_rows rows). \<not> isl (pgx_ScanSchema x r))))"
proof -
  let ?w = "\<lambda>d. snd (listSchemasForDatabase x s acq d)"
  have "\<not> isl (?w d) \<longleftrightarrow> acq d = None \<and> pgx_New x (st_connStrFor s d) = None \<and>
      (\<exists>rows. pgx_Query x (st_connStrFor s d) SqlSchemas = Inr rows \<and>
        rw_err rows = None \<and> (\<forall>r \<in> set (rw_rows rows). \<not> isl (pgx_ScanSchema x r)))" for d
  proof -
    have "\<not> isl (?w d) \<longleftrightarrow> (\<exists>v. ?w d = Inr v)"
      by (cases "?w d") auto
    then show ?thesis
      unfolding listSchemasForDatabase_def with_database_Inr_iff read_rows_Inr_iff ex_map_Inr_iff [symmetric]
      by blast
  qed
  moreover have "ListSchemas x s acq sched = forEachDatabase sched dbs ?w"
    using assms(1) by (simp add: ListSchemas_def split: sum.splits)
  ultimately show ?thesis
    using forEachDatabase_ok_iff [OF assms(2), of ?w] by simp
qed

theorem ListSchemas_all_or_nothing_witness:
  "snd (ListDatabases demo_pgx demo_store) = Inr demo_dbs \<and>
   \<not> (\<exists>rs. ListSchemas demo_pgx demo_store
        (\<lambda>d. if d = ''bi'' then Some (ErrorString ''context canceled'') else None) [1, 0] = Inr rs)"
  unfolding ListSchemas_all_or_nothing [OF demo_ListDatabases demo_dbs_schedule(1)]
  using demo_ListDatabases by (simp add: demo_dbs_def)

text \<open>C31: \<open>ListDatabases\<close> never looks at \<open>rows.Err()\<close>: when the connection breaks in the middle of the
  iteration, it returns the databases read so far as if the list were complete. If these databases can
  be read, \<open>ListSchemas\<close> then succeeds, with the schemas of those databases and no others.\<close>

theorem ListDatabases_ignores_iteration_error:
  assumes "pgx_Query x (st_pool s) SqlDatabases = Inr rows" "rw_err rows = Some e"
    and "map (pgx_ScanDatabase x) (rw_rows rows) = map Inr vs" "is_schedule sched vs"
    and "\<forall>(name, oid) \<in> set vs. \<not> isl (snd (listSchemasForDatabase x s acq name))"
  shows "snd (ListDatabases x s) = Inr (map (\<lambda>(name, oid). \<lparr>db_Name = name, db_Oid = oid\<rparr>) vs) \<and>
    (\<exists>schemas. ListSchemas x s acq sched = Inr schemas \<and>
      set schemas = (\<Union>(name, oid) \<in> set vs. set (projr (snd (listSchemasForDatabase x s acq name)))) \<and>
      sch_Database ` set schemas \<subseteq> fst ` set vs)"
proof -
  let ?dbs = "map (\<lambda>(name, oid). \<lparr>db_Name = name, db_Oid = oid\<rparr>) vs"
  let ?w = "\<lambda>d. snd (listSchemasForDatabase x s acq d)"
  have "scan_loop (pgx_ScanDatabase x) (\<lambda>err. err) (\<lambda>(name, oid). \<lparr>db_Name = name, db_Oid = oid\<rparr>)
      (rw_rows rows) [] = Inr ?dbs"
    using assms(3) by (auto simp: scan_loop_Inr_iff)
  then have dbs: "snd (ListDatabases x s) = Inr ?dbs"
    using assms(1) by (simp add: ListDatabases_def)
  have sched: "is_schedule sched ?dbs"
    using assms(4) by (simp add: is_schedule_def)
  have "\<forall>db \<in> set ?dbs. \<not> isl (?w (db_Name db))"
    using assms(5) by auto
  then obtain schemas where schemas: "forEachDatabase sched ?dbs ?w = Inr schemas"
    using forEachDatabase_ok_iff [OF sched, of ?w] by blast
  note rows = forEachDatabase_set [OF sched schemas]
  have "set schemas = (\<Union>(name, oid) \<in> set vs. set (projr (?w name)))"
    unfolding rows(1) by auto
  moreover have "sch_Database sch \<in> fst ` set vs" if sch: "sch \<in> set schemas" for sch
  proof -
    obtain db xs where db: "db \<in> set ?dbs" "?w (db_Name db) = Inr xs" "sch \<in> set xs"
      using rows sch by fastforce
    have "sch_Database sch = db_Name db"
      by (rule schemas_worker.tagged [OF db(2,3)])
    then show ?thesis
      using db(1) by force
  qed
  moreover have "ListSchemas x s acq sched = Inr schemas"
    by (simp add: ListSchemas_def dbs schemas)
  ultimately show ?thesis
    using dbs by blast
qed

definition demo_broken :: "(u32 \<times> string) pgx" where
  "demo_broken = demo_pgx\<lparr>pgx_Query := (\<lambda>c q. Inr \<lparr>rw_rows = [(5, ''app'')],
     rw_err = (if q = SqlDatabases then Some (ErrorString ''unexpected EOF'') else None)\<rparr>)\<rparr>"

theorem ListDatabases_ignores_iteration_error_witness:
  "rw_err (projr (pgx_Query demo_broken (st_pool demo_store) SqlDatabases)) = Some (ErrorString ''unexpected EOF'') \<and>
   snd (ListDatabases demo_broken demo_store) = Inr [\<lparr>db_Name = ''app'', db_Oid = 5\<rparr>] \<and>
   (\<exists>schemas. ListSchemas demo_broken demo_store (\<lambda>_. None) [0] = Inr schemas \<and>
     set schemas = {\<lparr>sch_Database = ''app'', sch_Name = ''app'', sch_Owner = ''postgres'', sch_Oid = 5\<rparr>})"
proof -
  let ?rows = "\<lparr>rw_rows = [(5, ''app'')], rw_err = Some (ErrorString ''unexpected EOF'')\<rparr>"
  have h: "pgx_Query demo_broken (st_pool demo_store) SqlDatabases = Inr ?rows"
    "map (pgx_ScanDatabase demo_broken) (rw_rows ?rows) = map Inr [(''app'', 5)]" "is_schedule [0] [(''app'', 5)]"
    by (simp_all add: demo_broken_def demo_pgx_def is_schedule_def)
  have w: "snd (listSchemasForDatabase demo_broken demo_store (\<lambda>_. None) ''app'') =
      Inr [\<lparr>sch_Database = ''app'', sch_Name = ''app'', sch_Owner = ''postgres'', sch_Oid = 5\<rparr>]"
    by (simp add: demo_broken_def demo_store_simps)
  from ListDatabases_ignores_iteration_error [OF h(1) _ h(2,3), of "ErrorString ''unexpected EOF''" "\<lambda>_. None"]
  show ?thesis
    by (simp add: h(1) w) blast
qed

end
