(* ===== verification/Pgbackrest.thy ===== *)
theory Pgbackrest
  imports Go_Unmarshal Pg_Store
begin

text \<open>
  \<open>internal/extractor/store/pgbackrest.go\<close>: the backups of the cluster, read from the JSON report of the
  \<open>pgbackrest\<close> program. The program is not part of the repository: it is the parameter \<open>command\<close>, which
  gives the output (or the error) of a command line.

  Each type that is decoded has its descriptor, with the names of the struct tags of
  \<open>internal/extractor/types/types.go\<close>, and its readers and writers; the interpretations of \<open>go_type\<close> show
  that they fit together.
\<close>

section \<open>The types of the report\<close>

definition PgbackrestRepo_type :: gtype where
  "PgbackrestRepo_type = GStruct [(''delta'', GUint 64), (''size'', GUint 64)]"

definition PgbackrestRepo_to :: "PgbackrestRepo \<Rightarrow> gval" where
  "PgbackrestRepo_to r = VStruct [uint_to (pr_Delta r), uint_to (pr_Size r)]"

definition PgbackrestRepo_of :: "gval \<Rightarrow> PgbackrestRepo" where
  "PgbackrestRepo_of v = \<lparr>pr_Delta = word_of (field v 0), pr_Size = word_of (field v 1)\<rparr>"

definition BackupTimestamp_type :: gtype where
  "BackupTimestamp_type = GStruct [(''start'', GInt 64), (''stop'', GInt 64)]"

definition BackupTimestamp_to :: "BackupTimestamp \<Rightarrow> gval" where
  "BackupTimestamp_to x = VStruct [sint_to (bt_Start x), sint_to (bt_Stop x)]"

definition BackupTimestamp_of :: "gval \<Rightarrow> BackupTimestamp" where
  "BackupTimestamp_of v = \<lparr>bt_Start = word_of (field v 0), bt_Stop = word_of (field v 1)\<rparr>"

definition BackupSizeInfo_type :: gtype where
  "BackupSizeInfo_type =
     GStruct [(''delta'', GUint 64), (''repository'', PgbackrestRepo_type), (''size'', GUint 64)]"

definition BackupSizeInfo_to :: "BackupSizeInfo \<Rightarrow> gval" where
  "BackupSizeInfo_to x =
     VStruct [uint_to (bs_Delta x), PgbackrestRepo_to (bs_Repository x), uint_to (bs_Size x)]"

definition BackupSizeInfo_of :: "gval \<Rightarrow> BackupSizeInfo" where
  "BackupSizeInfo_of v = \<lparr>bs_Delta = word_of (field v 0),
     bs_Repository = PgbackrestRepo_of (field v 1), bs_Size = word_of (field v 2)\<rparr>"

definition PgbackrestDatabase_type :: gtype where
  "PgbackrestDatabase_type = GStruct [(''id'', GUint 8), (''repo-key'', GUint 8)]"

definition PgbackrestDatabase_to :: "PgbackrestDatabase \<Rightarrow> gval" where
  "PgbackrestDatabase_to x = VStruct [uint_to (pd_Id x), uint_to (pd_RepoKey x)]"

definition PgbackrestDatabase_of :: "gval \<Rightarrow> PgbackrestDatabase" where
  "PgbackrestDatabase_of v = \<lparr>pd_Id = word_of (field v 0), pd_RepoKey = word_of (field v 1)\<rparr>"

definition PgbackrestDb_type :: gtype where
  "PgbackrestDb_type = GStruct [(''version'', GString), (''system-id'', GUint 64), (''repo-key'', GUint 8),
     (''id'', GUint 8)]"

definition PgbackrestDb_to :: "PgbackrestDb \<Rightarrow> gval" where
  "PgbackrestDb_to x = VStruct [VString (pdb_Version x), uint_to (pdb_SystemId x), uint_to (pdb_RepoKey x),
     uint_to (pdb_Id x)]"

definition PgbackrestDb_of :: "gval \<Rightarrow> PgbackrestDb" where
  "PgbackrestDb_of v = \<lparr>pdb_Version = string_of (field v 0), pdb_SystemId = word_of (field v 1),
     pdb_RepoKey = word_of (field v 2), pdb_Id = word_of (field v 3)\<rparr>"

definition Backup_type :: gtype where
  "Backup_type = GStruct [(''label'', GString), (''type'', GString), (''timestamp'', BackupTimestamp_type),
     (''info'', BackupSizeInfo_type), (''database'', PgbackrestDatabase_type), (''error'', GBool)]"

definition Backup_to :: "Backup \<Rightarrow> gval" where
  "Backup_to b = VStruct [VString (bk_Label b), VString (bk_Type b), BackupTimestamp_to (bk_Timestamp b),
     BackupSizeInfo_to (bk_Info b), PgbackrestDatabase_to (bk_Database b), VBool (bk_Error b)]"

definition Backup_of :: "gval \<Rightarrow> Backup" where
  "Backup_of v = \<lparr>bk_Label = string_of (field v 0), bk_Type = string_of (field v 1),
     bk_Timestamp = BackupTimestamp_of (field v 2), bk_Info = BackupSizeInfo_of (field v 3),
     bk_Database = PgbackrestDatabase_of (field v 4), bk_Error = bool_of (field v 5)\<rparr>"

definition PgbackrestInfo_type :: gtype where
  "PgbackrestInfo_type = GStruct [(''name'', GString), (''backup'', GSlice Backup_type),
     (''db'', GSlice PgbackrestDb_type)]"

definition PgbackrestInfo_to :: "PgbackrestInfo \<Rightarrow> gval" where
  "PgbackrestInfo_to x = VStruct [VString (pi_Name x), slice_to Backup_to (pi_Backup x),
     slice_to PgbackrestDb_to (pi_Db x)]"

definition PgbackrestInfo_of :: "gval \<Rightarrow> PgbackrestInfo" where
  "PgbackrestInfo_of v = \<lparr>pi_Name = string_of (field v 0), pi_Backup = slice_of Backup_of (field v 1),
     pi_Db = slice_of PgbackrestDb_of (field v 2)\<rparr>"

section \<open>Operations\<close>

definition parseBackrestInfo :: "string \<Rightarrow> PgbackrestInfo list go" where
  "parseBackrestInfo data =
     (case Unmarshal (GSlice PgbackrestInfo_type) data (zero (GSlice PgbackrestInfo_type)) of
        Inl err \<Rightarrow> Inl err
      | Inr info \<Rightarrow> Inr (slice_of PgbackrestInfo_of info))"

definition ListBackups :: "(string list \<Rightarrow> string go) \<Rightarrow> Store \<Rightarrow> PgbackrestInfo list go" where
  "ListBackups command s =
     (case command [''pgbackrest'', ''info'', ''--stanza='' @ st_Stanza s, ''--output=json''] of
        Inl err \<Rightarrow> Inl (Errorf ''pgbackrest info failed: %w'' [ArgErr err])
      | Inr data \<Rightarrow> parseBackrestInfo data)"

section \<open>The types fit together\<close>

interpretation repo_type: go_type PgbackrestRepo_type PgbackrestRepo_to PgbackrestRepo_of
  by unfold_locales (auto simp: PgbackrestRepo_type_def PgbackrestRepo_to_def PgbackrestRepo_of_def
      go_struct_simps simp del: has_type.simps)

interpretation timestamp_type: go_type BackupTimestamp_type BackupTimestamp_to BackupTimestamp_of
  by unfold_locales (auto simp: BackupTimestamp_type_def BackupTimestamp_to_def BackupTimestamp_of_def
      go_struct_simps simp del: has_type.simps)

interpretation size_info_type: go_type BackupSizeInfo_type BackupSizeInfo_to BackupSizeInfo_of
  by unfold_locales (auto simp: BackupSizeInfo_type_def BackupSizeInfo_to_def BackupSizeInfo_of_def
      go_struct_simps simp del: has_type.simps)

interpretation backup_database_type:
  go_type PgbackrestDatabase_type PgbackrestDatabase_to PgbackrestDatabase_of
  by unfold_locales (auto simp: PgbackrestDatabase_type_def PgbackrestDatabase_to_def
      PgbackrestDatabase_of_def go_struct_simps simp del: has_type.simps)

interpretation backup_db_type: go_type PgbackrestDb_type PgbackrestDb_to PgbackrestDb_of
  by unfold_locales (auto simp: PgbackrestDb_type_def PgbackrestDb_to_def PgbackrestDb_of_def
      go_struct_simps simp del: has_type.simps)

interpretation backup_type: go_type Backup_type Backup_to Backup_of
  by unfold_locales (auto simp: Backup_type_def Backup_to_def Backup_of_def go_struct_simps
      simp del: has_type.simps)

interpretation backup_dbs_type: go_type "GSlice PgbackrestDb_type" "slice_to PgbackrestDb_to" "slice_of PgbackrestDb_of"
  by (rule go_type_slice) (rule backup_db_type.go_type_axioms)

interpretation backups_type: go_type "GSlice Backup_type" "slice_to Backup_to" "slice_of Backup_of"
  by (rule go_type_slice) (rule backup_type.go_type_axioms)

interpretation info_type: go_type PgbackrestInfo_type PgbackrestInfo_to PgbackrestInfo_of
  by unfold_locales (auto simp: PgbackrestInfo_type_def PgbackrestInfo_to_def PgbackrestInfo_of_def
      go_struct_simps simp del: has_type.simps)

interpretation infos_type: go_type "GSlice PgbackrestInfo_type" "slice_to PgbackrestInfo_to" "slice_of PgbackrestInfo_of"
  by (rule go_type_slice) (rule info_type.go_type_axioms)

section \<open>Properties\<close>

lemma parseBackrestInfo_map_sum:
  "parseBackrestInfo data = map_sum id (slice_of PgbackrestInfo_of)
    (Unmarshal (GSlice PgbackrestInfo_type) data (zero (GSlice PgbackrestInfo_type)))"
  by (simp add: parseBackrestInfo_def split: sum.splits)

text \<open>A report of a cluster that was upgraded from version 14 to 15 and backed up afterwards, cut down from
  \<open>internal/extractor/testdata/pgbackrest.json\<close>, and what it says.\<close>

lemmas info_type_defs = PgbackrestInfo_type_def Backup_type_def PgbackrestDb_type_def
  PgbackrestDatabase_type_def BackupSizeInfo_type_def PgbackrestRepo_type_def BackupTimestamp_type_def

lemmas info_to_defs = PgbackrestInfo_to_def Backup_to_def PgbackrestDb_to_def
  PgbackrestDatabase_to_def BackupSizeInfo_to_def PgbackrestRepo_to_def BackupTimestamp_to_def

lemmas info_of_defs = PgbackrestInfo_of_def Backup_of_def PgbackrestDb_of_def
  PgbackrestDatabase_of_def BackupSizeInfo_of_def PgbackrestRepo_of_def BackupTimestamp_of_def

definition demo_report_json :: json where
  "demo_report_json = JArr [JObj [(''archive'', JArr [JObj [(''id'', JStr ''15-1'')]]),
     (''backup'', JArr [JObj [(''database'', JObj [(''id'', JNum ''2''), (''repo-key'', JNum ''1'')]), (''error'', JNull),
        (''info'', JObj [(''delta'', JNum ''10''), (''repository'', JObj [(''delta'', JNum ''7''), (''size'', JNum ''8'')]),
           (''size'', JNum ''23246324'')]),
        (''label'', JStr ''20260103-233937F''),
        (''timestamp'', JObj [(''start'', JNum ''1767483577''), (''stop'', JNum ''1767483580'')]), (''type'', JStr ''full'')]]),
     (''db'', JArr [JObj [(''id'', JNum ''1''), (''repo-key'', JNum ''1''), (''system-id'', JNum ''7''), (''version'', JStr ''14'')],
        JObj [(''id'', JNum ''2''), (''repo-key'', JNum ''1''), (''system-id'', JNum ''8''), (''version'', JStr ''15'')]]),
     (''name'', JStr ''main''), (''status'', JObj [(''code'', JNum ''0'')])]]"


definition demo_report :: string where
  "demo_report = show_json demo_report_json"

definition demo_info :: PgbackrestInfo where
  "demo_info = \<lparr>pi_Name = ''main'',
     pi_Backup = [\<lparr>bk_Label = ''20260103-233937F'', bk_Type = ''full'',
       bk_Timestamp = \<lparr>bt_Start = 1767483577, bt_Stop = 1767483580\<rparr>,
       bk_Info = \<lparr>bs_Delta = 10, bs_Repository = \<lparr>pr_Delta = 7, pr_Size = 8\<rparr>, bs_Size = 23246324\<rparr>,
       bk_Database = \<lparr>pd_Id = 2, pd_RepoKey = 1\<rparr>, bk_Error = False\<rparr>],
     pi_Db = [\<lparr>pdb_Version = ''14'', pdb_SystemId = 7, pdb_RepoKey = 1, pdb_Id = 1\<rparr>,
       \<lparr>pdb_Version = ''15'', pdb_SystemId = 8, pdb_RepoKey = 1, pdb_Id = 2\<rparr>]\<rparr>"

lemma demo_parse: "parse_json demo_report = Some demo_report_json"
  unfolding demo_report_def
  by (rule parse_show_json)
    (simp_all add: demo_report_json_def utf8_ok.simps rune_len_ascii byte_def num_ok_def valid_number_def
      is_digit_def num_char_def valid_frac_def maxNestingDepth_def)

lemma demo_no_dups: "no_dups demo_report_json"
  by (simp add: demo_report_json_def upper_byte_def is_lower_def)

lemma demo_decode: "parseBackrestInfo demo_report = Inr [demo_info]"
  by (simp add: parseBackrestInfo_def Unmarshal_def demo_parse demo_report_json_def info_type_defs
    field_index_def slice_of_def info_of_defs field_def word_of_def ParseUint_def ParseInt_def is_digit_def decimal_def digit_value_def in_uint_def in_int_def demo_info_def
    upper_byte_def is_lower_def)

text \<open>C17: \<open>parseBackrestInfo\<close> returns exactly what the report says. For a text in which no object repeats a
  name, it returns \<open>infos\<close> if and only if the text is JSON and represents \<open>infos\<close>: every field has the
  value of the member with its name, numbers fit the field's width, fields that are missing or null are
  zero, and members the program does not know are ignored; every other text is an error.\<close>

theorem parseBackrestInfo_iff:
  assumes "single_names data"
  shows "parseBackrestInfo data = Inr infos \<longleftrightarrow>
    describes (GSlice PgbackrestInfo_type) (slice_to PgbackrestInfo_to infos) data"
  unfolding parseBackrestInfo_map_sum by (rule infos_type.Unmarshal_of_go_iff [OF assms])

theorem parseBackrestInfo_iff_witness:
  "describes (GSlice PgbackrestInfo_type) (slice_to PgbackrestInfo_to [demo_info]) demo_report"
proof -
  have "single_names demo_report"
    by (simp add: single_names_def demo_parse demo_no_dups)
  then show ?thesis
    using parseBackrestInfo_iff [of demo_report "[demo_info]"] demo_decode by blast
qed

text \<open>C19: the report is decoded into a value of the declared Go types, for every text, also one whose objects
  repeat a name so that a member is decoded over an earlier one: every field holds a value of its type,
  every number is in the range of its width, and so is the memory behind the slices that later members
  may uncover.\<close>

theorem parseBackrestInfo_well_typed:
  assumes "parseBackrestInfo data = Inr infos"
  shows "\<exists>v. Unmarshal (GSlice PgbackrestInfo_type) data (zero (GSlice PgbackrestInfo_type)) = Inr v \<and>
    has_type (GSlice PgbackrestInfo_type) v \<and> infos = slice_of PgbackrestInfo_of v"
proof -
  obtain v where v: "Unmarshal (GSlice PgbackrestInfo_type) data (zero (GSlice PgbackrestInfo_type)) = Inr v"
    "infos = slice_of PgbackrestInfo_of v"
    using assms by (auto simp: parseBackrestInfo_def split: sum.splits)
  then obtain j where "decode (GSlice PgbackrestInfo_type) j (zero (GSlice PgbackrestInfo_type)) = Inr v"
    by (auto simp: Unmarshal_def split: option.splits)
  then show ?thesis
    using v decode_has_type(1) has_type_zero by blast
qed

theorem parseBackrestInfo_well_typed_witness:
  "\<exists>v. has_type (GSlice PgbackrestInfo_type) v \<and> slice_of PgbackrestInfo_of v = [demo_info]"
  using parseBackrestInfo_well_typed [OF demo_decode] by metis

text \<open>The strings of a report.\<close>

definition utf8_info :: "PgbackrestInfo \<Rightarrow> bool" where
  "utf8_info x \<longleftrightarrow> utf8_ok (pi_Name x) \<and>
     (\<forall>b \<in> set (pi_Backup x). utf8_ok (bk_Label b) \<and> utf8_ok (bk_Type b)) \<and>
     (\<forall>d \<in> set (pi_Db x). utf8_ok (pdb_Version d))"

text \<open>C18: round trip. Every report whose strings are UTF-8 can be written as JSON text from which
  \<open>parseBackrestInfo\<close> reads it back, with any label, any 64-bit size and time and any 8-bit key.\<close>

theorem parseBackrestInfo_roundtrip:
  assumes "list_all utf8_info infos"
  shows "parseBackrestInfo (show_json (marshal (GSlice PgbackrestInfo_type) (slice_to PgbackrestInfo_to infos))) =
    Inr infos"
proof -
  have "type_ok (GSlice PgbackrestInfo_type)"
    by (simp add: info_type_defs utf8_ok.simps rune_len_ascii upper_byte_def is_lower_def byte_def)
  moreover have "type_depth (GSlice PgbackrestInfo_type) \<le> maxNestingDepth"
    by (simp add: info_type_defs maxNestingDepth_def)
  moreover have "clean (slice_to PgbackrestInfo_to infos)"
    using assms by (auto simp: slice_to_def list_all_iff utf8_info_def info_to_defs uint_to_def sint_to_def)
  ultimately show ?thesis
    unfolding parseBackrestInfo_map_sum by (subst Unmarshal_marshal) (simp_all del: has_type.simps)
qed

theorem parseBackrestInfo_roundtrip_witness:
  "parseBackrestInfo (show_json (marshal (GSlice PgbackrestInfo_type) (slice_to PgbackrestInfo_to [demo_info]))) =
    Inr [demo_info]"
  by (rule parseBackrestInfo_roundtrip)
    (simp add: utf8_info_def demo_info_def utf8_ok.simps rune_len_ascii byte_def)

end
