(* ===== verification/Pg_Tables.thy ===== *)
theory Pg_Tables
  imports Go_Unmarshal Pg_Store
begin

text \<open>
  \<open>internal/extractor/store/tables.go\<close>: the tables of every database. A row of the query has the
  table's name and owner as columns and its statistics, columns, indexes, constraints and parents as
  JSON documents, which are decoded one by one into a fresh \<open>types.Table\<close>. A \<open>[]byte\<close> that the driver
  leaves nil (the SQL value NULL) is \<open>None\<close>.
\<close>

section \<open>The types of the documents\<close>

definition TableStats_type :: gtype where
  "TableStats_type = GStruct [(''row_estimate'', GInt 64), (''total_size_bytes'', GUint 64),
     (''heap_size_bytes'', GUint 64), (''toast_size_bytes'', GUint 64)]"

definition TableStats_to :: "TableStats \<Rightarrow> gval" where
  "TableStats_to x = VStruct [sint_to (ts_RowEstimate x), uint_to (ts_TotalSizeBytes x),
     uint_to (ts_HeapSizeBytes x), uint_to (ts_ToastSizeBytes x)]"

definition TableStats_of :: "gval \<Rightarrow> TableStats" where
  "TableStats_of v = \<lparr>ts_RowEstimate = word_of (field v 0), ts_TotalSizeBytes = word_of (field v 1),
     ts_HeapSizeBytes = word_of (field v 2), ts_ToastSizeBytes = word_of (field v 3)\<rparr>"

definition InheritanceRelation_type :: gtype where
  "InheritanceRelation_type = GStruct [(''name'', GString), (''oid'', GUint 32)]"

definition InheritanceRelation_to :: "InheritanceRelation \<Rightarrow> gval" where
  "InheritanceRelation_to x = VStruct [VString (ir_Name x), uint_to (ir_Oid x)]"

definition InheritanceRelation_of :: "gval \<Rightarrow> InheritanceRelation" where
  "InheritanceRelation_of v = \<lparr>ir_Name = string_of (field v 0), ir_Oid = word_of (field v 1)\<rparr>"

definition TableInheritance_type :: gtype where
  "TableInheritance_type = GStruct [(''parent_tables'', GSlice (GPtr InheritanceRelation_type))]"

definition TableInheritance_to :: "TableInheritance \<Rightarrow> gval" where
  "TableInheritance_to x = VStruct [slice_to (ptr_to InheritanceRelation_to) (ti_ParentTables x)]"

definition TableInheritance_of :: "gval \<Rightarrow> TableInheritance" where
  "TableInheritance_of v = \<lparr>ti_ParentTables = slice_of (ptr_of InheritanceRelation_of) (field v 0)\<rparr>"

definition TableColumn_type :: gtype where
  "TableColumn_type = GStruct [(''name'', GString), (''type'', GString), (''not_null'', GBool),
     (''is_inherited'', GBool)]"

definition TableColumn_to :: "TableColumn \<Rightarrow> gval" where
  "TableColumn_to x = VStruct [VString (tc_Name x), VString (tc_Type x), VBool (tc_NotNull x),
     VBool (tc_IsInherited x)]"

definition TableColumn_of :: "gval \<Rightarrow> TableColumn" where
  "TableColumn_of v = \<lparr>tc_Name = string_of (field v 0), tc_Type = string_of (field v 1),
     tc_NotNull = bool_of (field v 2), tc_IsInherited = bool_of (field v 3)\<rparr>"

definition TableIndex_type :: gtype where
  "TableIndex_type = GStruct [(''name'', GString), (''type'', GString), (''definition'', GString),
     (''columns'', GSlice GString), (''size_bytes'', GUint 64), (''is_unique'', GBool),
     (''is_primary'', GBool), (''is_exclusion'', GBool), (''is_partial'', GBool), (''is_valid'', GBool),
     (''is_inherited'', GBool)]"

definition TableIndex_to :: "TableIndex \<Rightarrow> gval" where
  "TableIndex_to x = VStruct [VString (ix_Name x), VString (ix_Type x), VString (ix_Definition x),
     slice_to VString (ix_Columns x), uint_to (ix_SizeBytes x), VBool (ix_IsUnique x),
     VBool (ix_IsPrimary x), VBool (ix_IsExclusion x), VBool (ix_IsPartial x), VBool (ix_IsValid x),
     VBool (ix_IsInherited x)]"

definition TableIndex_of :: "gval \<Rightarrow> TableIndex" where
  "TableIndex_of v = \<lparr>ix_Name = string_of (field v 0), ix_Type = string_of (field v 1),
     ix_Definition = string_of (field v 2), ix_Columns = slice_of string_of (field v 3),
     ix_SizeBytes = word_of (field v 4), ix_IsUnique = bool_of (field v 5),
     ix_IsPrimary = bool_of (field v 6), ix_IsExclusion = bool_of (field v 7),
     ix_IsPartial = bool_of (field v 8), ix_IsValid = bool_of (field v 9),
     ix_IsInherited = bool_of (field v 10)\<rparr>"

definition TableConstraint_type :: gtype where
  "TableConstraint_type = GStruct [(''name'', GString), (''type'', GString), (''foreign_table'', GString),
     (''definition'', GString), (''local_columns'', GSlice GString), (''foreign_columns'', GSlice GString)]"

definition TableConstraint_to :: "TableConstraint \<Rightarrow> gval" where
  "TableConstraint_to x = VStruct [VString (con_Name x), VString (con_Type x), VString (con_ForeignTable x),
     VString (con_Definition x), slice_to VString (con_LocalColumns x),
     slice_to VString (con_ForeignColumns x)]"

definition TableConstraint_of :: "gval \<Rightarrow> TableConstraint" where
  "TableConstraint_of v = \<lparr>con_Name = string_of (field v 0), con_Type = string_of (field v 1),
     con_ForeignTable = string_of (field v 2), con_Definition = string_of (field v 3),
     con_LocalColumns = slice_of string_of (field v 4),
     con_ForeignColumns = slice_of string_of (field v 5)\<rparr>"

section \<open>Operations\<close>

text \<open>\<open>json.Unmarshal\<close> of a document into a variable with its zero value, and the check \<open>if data != nil\<close>
  around it; nil bytes are an empty document.\<close>

definition unmarshal_into :: "gtype \<Rightarrow> (gval \<Rightarrow> 'a) \<Rightarrow> string \<Rightarrow> string \<Rightarrow> string option \<Rightarrow> 'a go" where
  "unmarshal_into t rd msg name data =
     (case Unmarshal t (case data of None \<Rightarrow> [] | Some d \<Rightarrow> d) (zero t) of
        Inl err \<Rightarrow> Inl (Errorf msg [ArgStr name, ArgErr err])
      | Inr v \<Rightarrow> Inr (rd v))"

definition unmarshal_nullable ::
  "gtype \<Rightarrow> (gval \<Rightarrow> 'a list) \<Rightarrow> string \<Rightarrow> string \<Rightarrow> string option \<Rightarrow> 'a list go" where
  "unmarshal_nullable t rd msg name data =
     (case data of None \<Rightarrow> Inr [] | Some d \<Rightarrow> unmarshal_into t rd msg name data)"

abbreviation pointers_of :: "(gval \<Rightarrow> 'a) \<Rightarrow> gval \<Rightarrow> 'a option list" where
  "pointers_of f \<equiv> slice_of (ptr_of f)"

text \<open>The body of the loop over the rows.\<close>

definition table_row :: "'raw pgx \<Rightarrow> string \<Rightarrow> 'raw \<Rightarrow> Table go" where
  "table_row x dbName r =
     (case pgx_ScanTable x r of
        Inl err \<Rightarrow> Inl (database_error ''scan table row in database %q: %w'' dbName err)
      | Inr (oid, name, schema, owner, comment, statsJSON, columnsJSON, indexesJSON, constraintsJSON,
             inheritanceJSON) \<Rightarrow>
     (case unmarshal_into TableStats_type TableStats_of ''unmarshal stats for table %s: %w'' name statsJSON of
        Inl err \<Rightarrow> Inl err | Inr stats \<Rightarrow>
     (case unmarshal_nullable (GSlice (GPtr TableColumn_type)) (pointers_of TableColumn_of)
             ''unmarshal columns for table %s: %w'' name columnsJSON of
        Inl err \<Rightarrow> Inl err | Inr columns \<Rightarrow>
     (case unmarshal_nullable (GSlice (GPtr TableIndex_type)) (pointers_of TableIndex_of)
             ''unmarshal indexes for table %s: %w'' name indexesJSON of
        Inl err \<Rightarrow> Inl err | Inr indexes \<Rightarrow>
     (case unmarshal_nullable (GSlice (GPtr TableConstraint_type)) (pointers_of TableConstraint_of)
             ''unmarshal constraints for table %s: %w'' name constraintsJSON of
        Inl err \<Rightarrow> Inl err | Inr constraints \<Rightarrow>
     (case unmarshal_into TableInheritance_type TableInheritance_of
             ''unmarshal inheritance for table %s: %w'' name inheritanceJSON of
        Inl err \<Rightarrow> Inl err | Inr inheritance \<Rightarrow>
        Inr \<lparr>tb_Name = name, tb_Schema = schema, tb_Owner = owner, tb_Comment = comment,
             tb_TableColumns = columns, tb_TableIndexes = indexes, tb_TableConstraints = constraints,
             tb_Inheritance = inheritance, tb_Stats = stats, tb_Oid = oid\<rparr>))))))"

definition read_tables :: "'raw pgx \<Rightarrow> string \<Rightarrow> 'raw rows \<Rightarrow> TablesInfo list go" where
  "read_tables x dbName rows =
     (case scan_loop (table_row x dbName) (\<lambda>err. err) (\<lambda>table. table) (rw_rows rows) [] of
        Inl err \<Rightarrow> Inl err
      | Inr tables \<Rightarrow>
        (case rw_err rows of
           Some err \<Rightarrow> Inl (database_error ''iterate tables in database %q: %w'' dbName err)
         | None \<Rightarrow> Inr [\<lparr>tbi_Database = dbName, tbi_Tables = tables\<rparr>]))"

definition listTablesForDatabase ::
  "'raw pgx \<Rightarrow> Store \<Rightarrow> (string \<Rightarrow> go_error option) \<Rightarrow> string \<Rightarrow> TablesInfo list go eff" where
  "listTablesForDatabase x s acq dbName =
     with_database x s acq ''connect to %q for tables: %w'' ''query tables in database %q: %w''
       SqlTables (read_tables x dbName) dbName"

definition ListTables ::
  "'raw pgx \<Rightarrow> Store \<Rightarrow> (string \<Rightarrow> go_error option) \<Rightarrow> nat list \<Rightarrow> TablesInfo list go" where
  "ListTables x s acq sched =
     (case snd (ListDatabases x s) of
        Inl err \<Rightarrow> Inl err
      | Inr databases \<Rightarrow>
        (case forEachDatabase sched databases (\<lambda>d. snd (listTablesForDatabase x s acq d)) of
           Inl err \<Rightarrow> Inl err
         | Inr tables \<Rightarrow> Inr tables))"

section \<open>The types fit together\<close>

interpretation stats_type: go_type TableStats_type TableStats_to TableStats_of
  by unfold_locales (auto simp: TableStats_type_def TableStats_to_def TableStats_of_def
      go_struct_simps simp del: has_type.simps)

interpretation relation_type: go_type InheritanceRelation_type InheritanceRelation_to InheritanceRelation_of
  by unfold_locales (auto simp: InheritanceRelation_type_def InheritanceRelation_to_def
      InheritanceRelation_of_def go_struct_simps simp del: has_type.simps)

interpretation relations_type: go_type "GSlice (GPtr InheritanceRelation_type)"
    "slice_to (ptr_to InheritanceRelation_to)" "slice_of (ptr_of InheritanceRelation_of)"
  by (intro go_type_slice go_type_ptr) (rule relation_type.go_type_axioms)

interpretation inheritance_type: go_type TableInheritance_type TableInheritance_to TableInheritance_of
  by unfold_locales (auto simp: TableInheritance_type_def TableInheritance_to_def TableInheritance_of_def
      go_struct_simps simp del: has_type.simps)

interpretation column_type: go_type TableColumn_type TableColumn_to TableColumn_of
  by unfold_locales (auto simp: TableColumn_type_def TableColumn_to_def TableColumn_of_def
      go_struct_simps simp del: has_type.simps)

interpretation columns_type: go_type "GSlice (GPtr TableColumn_type)"
    "slice_to (ptr_to TableColumn_to)" "slice_of (ptr_of TableColumn_of)"
  by (intro go_type_slice go_type_ptr) (rule column_type.go_type_axioms)

interpretation index_type: go_type TableIndex_type TableIndex_to TableIndex_of
  by unfold_locales (auto simp: TableIndex_type_def TableIndex_to_def TableIndex_of_def
      go_struct_simps simp del: has_type.simps)

interpretation indexes_type: go_type "GSlice (GPtr TableIndex_type)"
    "slice_to (ptr_to TableIndex_to)" "slice_of (ptr_of TableIndex_of)"
  by (intro go_type_slice go_type_ptr) (rule index_type.go_type_axioms)

interpretation constraint_type: go_type TableConstraint_type TableConstraint_to TableConstraint_of
  by unfold_locales (auto simp: TableConstraint_type_def TableConstraint_to_def TableConstraint_of_def
      go_struct_simps simp del: has_type.simps)

interpretation constraints_type: go_type "GSlice (GPtr TableConstraint_type)"
    "slice_to (ptr_to TableConstraint_to)" "slice_of (ptr_of TableConstraint_of)"
  by (intro go_type_slice go_type_ptr) (rule constraint_type.go_type_axioms)

section \<open>The worker honours the contract\<close>

text \<open>An error of a document names the table of the row, and not the database.\<close>

definition unmarshal_messages :: "string list" where
  "unmarshal_messages = [''unmarshal stats for table %s: %w'', ''unmarshal columns for table %s: %w'',
     ''unmarshal indexes for table %s: %w'', ''unmarshal constraints for table %s: %w'',
     ''unmarshal inheritance for table %s: %w'']"

definition document_error :: "string \<Rightarrow> go_error \<Rightarrow> bool" where
  "document_error name e \<longleftrightarrow> (\<exists>t err. t \<in> set unmarshal_messages \<and> e = Errorf t [ArgStr name, ArgErr err])"

lemma unmarshal_into_Inl:
  "unmarshal_into t rd msg name data = Inl e \<Longrightarrow> msg \<in> set unmarshal_messages \<Longrightarrow> document_error name e"
  by (auto simp: unmarshal_into_def document_error_def split: sum.splits)

lemma unmarshal_nullable_Inl:
  "unmarshal_nullable t rd msg name data = Inl e \<Longrightarrow> msg \<in> set unmarshal_messages \<Longrightarrow> document_error name e"
  by (auto simp: unmarshal_nullable_def unmarshal_into_Inl split: option.splits)

lemma document_error_unwrap: "document_error name e \<Longrightarrow> \<exists>err. unwrap e = Some err"
  by (auto simp: document_error_def unmarshal_messages_def unwrap_Errorf)

text \<open>The errors of the table worker: they name the database, or come from a document of a row that was
  scanned and name the table of that row.\<close>

definition table_name :: "'raw pgx \<Rightarrow> 'raw \<Rightarrow> string option" where
  "table_name x r = (case pgx_ScanTable x r of Inl err \<Rightarrow> None | Inr (oid, name, rest) \<Rightarrow> Some name)"

definition names_database :: "string \<Rightarrow> go_error \<Rightarrow> bool" where
  "names_database d e \<longleftrightarrow> (\<exists>t err. verbs t = ''qw'' \<and> e = database_error t d err)"

lemma names_database_unwrap: "names_database d e \<Longrightarrow> \<exists>err. unwrap e = Some err"
  by (auto simp: names_database_def unwrap_database_error)

lemma names_databaseI: "verbs t = ''qw'' \<Longrightarrow> names_database d (database_error t d err)"
  by (auto simp: names_database_def)

lemma table_row_Inl:
  "table_row x d r = Inl e \<Longrightarrow> names_database d e \<or> (\<exists>name. table_name x r = Some name \<and> document_error name e)"
  by (auto simp: table_row_def table_name_def intro!: names_databaseI
      dest!: unmarshal_into_Inl unmarshal_nullable_Inl split: sum.splits prod.splits)
    (simp_all add: unmarshal_messages_def)

lemma read_tables_Inl:
  "read_tables x d rows = Inl e \<Longrightarrow> names_database d e \<or>
    (\<exists>r \<in> set (rw_rows rows). \<exists>name. table_name x r = Some name \<and> document_error name e)"
  by (auto simp: read_tables_def intro!: names_databaseI split: sum.splits option.splits
      dest!: scan_loop_InlD table_row_Inl)

lemma read_tables_Inr_iff:
  "read_tables x d rows = Inr ts \<longleftrightarrow> rw_err rows = None \<and>
    (\<exists>tables. map (table_row x d) (rw_rows rows) = map Inr tables \<and>
      ts = [\<lparr>tbi_Database = d, tbi_Tables = tables\<rparr>])"
proof -
  have "read_tables x d rows = Inr ts \<longleftrightarrow> rw_err rows = None \<and>
      (\<exists>tables. scan_loop (table_row x d) (\<lambda>err. err) (\<lambda>table. table) (rw_rows rows) [] = Inr tables \<and>
        ts = [\<lparr>tbi_Database = d, tbi_Tables = tables\<rparr>])"
    by (auto simp: read_tables_def split: sum.splits option.splits)
  then show ?thesis
    by (simp add: scan_loop_Inr_iff)
qed

lemma listTables_Inr:
  "snd (listTablesForDatabase x s acq d) = Inr ts \<Longrightarrow> \<exists>tables. ts = [\<lparr>tbi_Database = d, tbi_Tables = tables\<rparr>]"
  by (auto simp: listTablesForDatabase_def with_database_Inr_iff read_tables_Inr_iff)

lemma listTables_Inl:
  assumes "snd (listTablesForDatabase x s acq d) = Inl e"
  shows "names_database d e \<or> (\<exists>rows. pgx_Query x (st_connStrFor s d) SqlTables = Inr rows \<and>
    (\<exists>r \<in> set (rw_rows rows). \<exists>name. table_name x r = Some name \<and> document_error name e))"
proof -
  have "names_database d e \<or> (\<exists>rows. pgx_Query x (st_connStrFor s d) SqlTables = Inr rows \<and> read_tables x d rows = Inl e)"
    using assms by (auto simp: listTablesForDatabase_def with_database_def Let_def intro!: names_databaseI
        split: option.splits sum.splits)
  then show ?thesis
    using read_tables_Inl by metis
qed

lemma listTables_unwrap:
  "snd (listTablesForDatabase x s acq d) = Inl e \<Longrightarrow> \<exists>err. unwrap e = Some err"
  using listTables_Inl names_database_unwrap document_error_unwrap by metis

interpretation tables_worker:
  database_worker "listTablesForDatabase x s" tbi_Database for x :: "'raw pgx" and s
proof
  show "listTablesForDatabase x s acq d =
      ([], Inl (database_error ''acquire connection to %q: %w'' d e))" if "acq d = Some e" for acq d e
    using that by (simp add: listTablesForDatabase_def worker_laws)
  show "bracketed d (fst (listTablesForDatabase x s acq d))" if "acq d = None" for acq d
    using that by (simp add: listTablesForDatabase_def worker_laws)
  show "listTablesForDatabase x s acq d = listTablesForDatabase x s acq' d" if "acq d = acq' d" for acq acq' d
    unfolding listTablesForDatabase_def using that by (rule with_database_own_permit)
qed (auto dest: listTables_Inr listTables_unwrap)

section \<open>Properties\<close>

text \<open>C21: every worker honours the coordinator, the four of \<open>store.go\<close> and the one of \<open>tables.go\<close>. When
  \<open>Acquire\<close> fails, it does nothing else and in particular does not release; when \<open>Acquire\<close> succeeds,
  everything it does is between \<open>Acquire\<close> and exactly one \<open>Release\<close> of the same database, on every path,
  errors included, and every pool it opens is closed before the release.\<close>

theorem workers_honour_coordinator:
  "(if acq d = None
    then bracketed d (fst (listSchemasForDatabase x s acq d)) \<and>
      bracketed d (fst (listFunctionsForDatabase x s acq d)) \<and>
      bracketed d (fst (listSequencesForDatabase x s acq d)) \<and>
      bracketed d (fst (listInstalledExtensionsForDatabase x s acq d)) \<and>
      bracketed d (fst (listTablesForDatabase x s acq d))
    else fst (listSchemasForDatabase x s acq d) = [] \<and>
      fst (listFunctionsForDatabase x s acq d) = [] \<and>
      fst (listSequencesForDatabase x s acq d) = [] \<and>
      fst (listInstalledExtensionsForDatabase x s acq d) = [] \<and>
      fst (listTablesForDatabase x s acq d) = [])"
proof (cases "acq d")
  case None
  then show ?thesis
    by (simp add: schemas_worker.permit_bracketed functions_worker.permit_bracketed
        sequences_worker.permit_bracketed extensions_worker.permit_bracketed tables_worker.permit_bracketed)
next
  case (Some e)
  then show ?thesis
    by (simp add: schemas_worker.no_permit functions_worker.no_permit sequences_worker.no_permit
        extensions_worker.no_permit tables_worker.no_permit)
qed

text \<open>The table list has every database exactly once, databases without tables included, and the entry of
  a database has one table for each row of its query, in the order of the query.\<close>

theorem ListTables_every_database_once:
  assumes "snd (ListDatabases x s) = Inr dbs" "is_schedule sched dbs"
    and "ListTables x s acq sched = Inr infos"
  shows "mset (map tbi_Database infos) = mset (map db_Name dbs) \<and>
    (\<forall>info \<in> set infos. \<exists>rows. pgx_Query x (st_connStrFor s (tbi_Database info)) SqlTables = Inr rows \<and>
       rw_err rows = None \<and>
       map (table_row x (tbi_Database info)) (rw_rows rows) = map Inr (tbi_Tables info))"
proof -
  let ?w = "\<lambda>d. snd (listTablesForDatabase x s acq d)"
  have "forEachDatabase sched dbs ?w = Inr infos"
    using assms(1,3) by (simp add: ListTables_def split: sum.splits)
  then obtain xss where xss: "map (\<lambda>db. ?w (db_Name db)) (arrival sched dbs) = map Inr xss" "infos = concat xss"
    unfolding forEachDatabase_Inr_iff by blast
  have "map tbi_Database (concat xss) = map db_Name ds"
    if "map (\<lambda>db. ?w (db_Name db)) ds = map Inr xss" for ds xss
    using that
  proof (induction ds arbitrary: xss)
    case (Cons db ds)
    then show ?case by (cases xss) (auto dest!: listTables_Inr)
  qed simp
  then have "map tbi_Database infos = map db_Name (arrival sched dbs)"
    using xss by blast
  then have "mset (map tbi_Database infos) = mset (map db_Name dbs)"
    by (simp add: mset_arrival [OF assms(2)])
  moreover have "\<exists>rows. pgx_Query x (st_connStrFor s (tbi_Database info)) SqlTables = Inr rows \<and>
      rw_err rows = None \<and> map (table_row x (tbi_Database info)) (rw_rows rows) = map Inr (tbi_Tables info)"
    if info: "info \<in> set infos" for info
  proof -
    obtain ts where ts: "ts \<in> set xss" "info \<in> set ts"
      using info xss(2) by auto
    then obtain d where "?w d = Inr ts"
      using xss(1) by (metis (no_types, lifting) image_eqI image_iff list.set_map)
    with ts show ?thesis
      by (auto simp: listTablesForDatabase_def with_database_Inr_iff read_tables_Inr_iff)
  qed
  ultimately show ?thesis by blast
qed

lemma parse_empty: "parse_json ''{}'' = Some (JObj [])" "parse_json ''[]'' = Some (JArr [])"
  by (simp_all add: parse_json_def lex_json.simps is_space_def punctuation_def add_token_def scan_step_def
      push_state_def maxNestingDepth_def)

definition demo_table :: "string \<Rightarrow> Table" where
  "demo_table n = \<lparr>tb_Name = n, tb_Schema = ''public'', tb_Owner = ''postgres'', tb_Comment = None,
     tb_TableColumns = [], tb_TableIndexes = [], tb_TableConstraints = [],
     tb_Inheritance = \<lparr>ti_ParentTables = []\<rparr>,
     tb_Stats = \<lparr>ts_RowEstimate = 0, ts_TotalSizeBytes = 0, ts_HeapSizeBytes = 0, ts_ToastSizeBytes = 0\<rparr>,
     tb_Oid = 1\<rparr>"

lemma demo_table_row: "table_row demo_pgx d (1, n) = Inr (demo_table n)"
  by (simp add: table_row_def demo_pgx_def unmarshal_into_def unmarshal_nullable_def Unmarshal_def parse_empty
      TableStats_type_def TableInheritance_type_def TableStats_of_def TableInheritance_of_def field_def
      word_of_def slice_of_def demo_table_def)

definition demo_tables :: "TablesInfo list" where
  "demo_tables = [\<lparr>tbi_Database = ''bi'', tbi_Tables = [demo_table ''pg:bi'']\<rparr>,
     \<lparr>tbi_Database = ''app'', tbi_Tables = [demo_table ''pg:app'']\<rparr>]"

lemma demo_ListTables: "ListTables demo_pgx demo_store (\<lambda>_. None) [1, 0] = Inr demo_tables"
proof -
  have q: "pgx_Query demo_pgx c SqlTables = Inr \<lparr>rw_rows = [(1, c)], rw_err = None\<rparr>" for c
    by (simp add: demo_pgx_def)
  have "snd (listTablesForDatabase demo_pgx demo_store (\<lambda>_. None) d) =
      Inr [\<lparr>tbi_Database = d, tbi_Tables = [demo_table (''pg:'' @ d)]\<rparr>]" for d
    unfolding listTablesForDatabase_def with_database_Inr_iff read_tables_Inr_iff
    by (auto simp: q demo_table_row demo_store_def) (simp add: demo_pgx_def)
  then show ?thesis
    by (simp add: ListTables_def demo_ListDatabases demo_tables_def demo_dbs_def forEachDatabase_def
        fan_result_def)
qed

theorem ListTables_every_database_once_witness:
  "ListTables demo_pgx demo_store (\<lambda>_. None) [1, 0] = Inr demo_tables \<and>
   mset (map tbi_Database demo_tables) = mset (map db_Name demo_dbs)"
  using ListTables_every_database_once [OF demo_ListDatabases demo_dbs_schedule(1) demo_ListTables]
    demo_ListTables by blast





text \<open>What the documents of a row say; a document that is NULL says that there is nothing.\<close>

definition describes_nullable :: "gtype \<Rightarrow> ('a list \<Rightarrow> gval) \<Rightarrow> 'a list \<Rightarrow> string option \<Rightarrow> bool" where
  "describes_nullable t to xs data = (case data of None \<Rightarrow> xs = [] | Some d \<Rightarrow> describes t (to xs) d)"

definition bytes :: "string option \<Rightarrow> string" where
  "bytes data = (case data of None \<Rightarrow> [] | Some d \<Rightarrow> d)"

lemma unmarshal_into_Inr_iff:
  assumes "go_type t to rd" "single_names (bytes data)"
  shows "unmarshal_into t rd msg name data = Inr v \<longleftrightarrow> describes t (to v) (bytes data)"
proof -
  have "unmarshal_into t rd msg name data = Inr v \<longleftrightarrow> map_sum id rd (Unmarshal t (bytes data) (zero t)) = Inr v"
    by (auto simp: unmarshal_into_def bytes_def split: sum.splits)
  then show ?thesis
    using go_type.Unmarshal_of_go_iff [OF assms] by blast
qed

lemma unmarshal_nullable_Inr_iff:
  assumes "go_type t to rd" "single_names (bytes data)"
  shows "unmarshal_nullable t rd msg name data = Inr v \<longleftrightarrow> describes_nullable t to v data"
proof (cases data)
  case (Some d)
  then show ?thesis
    using unmarshal_into_Inr_iff [OF assms] by (simp add: unmarshal_nullable_def describes_nullable_def bytes_def)
qed (auto simp: unmarshal_nullable_def describes_nullable_def)

lemma table_row_Inr_iff:
  assumes "pgx_ScanTable x r = Inr (oid, name, schema, own, comment, stats, cols, idxs, cons, inh)"
    and "\<forall>data \<in> {stats, cols, idxs, cons, inh}. single_names (bytes data)"
  shows "table_row x d r = Inr tb \<longleftrightarrow>
    tb_Oid tb = oid \<and> tb_Name tb = name \<and> tb_Schema tb = schema \<and> tb_Owner tb = own \<and>
    tb_Comment tb = comment \<and>
    describes TableStats_type (TableStats_to (tb_Stats tb)) (bytes stats) \<and>
    describes_nullable (GSlice (GPtr TableColumn_type)) (slice_to (ptr_to TableColumn_to)) (tb_TableColumns tb) cols \<and>
    describes_nullable (GSlice (GPtr TableIndex_type)) (slice_to (ptr_to TableIndex_to)) (tb_TableIndexes tb) idxs \<and>
    describes_nullable (GSlice (GPtr TableConstraint_type)) (slice_to (ptr_to TableConstraint_to))
      (tb_TableConstraints tb) cons \<and>
    describes TableInheritance_type (TableInheritance_to (tb_Inheritance tb)) (bytes inh)"
proof -
  have "table_row x d r = Inr tb \<longleftrightarrow>
    tb_Oid tb = oid \<and> tb_Name tb = name \<and> tb_Schema tb = schema \<and> tb_Owner tb = own \<and>
    tb_Comment tb = comment \<and>
    unmarshal_into TableStats_type TableStats_of ''unmarshal stats for table %s: %w'' name stats =
      Inr (tb_Stats tb) \<and>
    unmarshal_nullable (GSlice (GPtr TableColumn_type)) (pointers_of TableColumn_of)
      ''unmarshal columns for table %s: %w'' name cols = Inr (tb_TableColumns tb) \<and>
    unmarshal_nullable (GSlice (GPtr TableIndex_type)) (pointers_of TableIndex_of)
      ''unmarshal indexes for table %s: %w'' name idxs = Inr (tb_TableIndexes tb) \<and>
    unmarshal_nullable (GSlice (GPtr TableConstraint_type)) (pointers_of TableConstraint_of)
      ''unmarshal constraints for table %s: %w'' name cons = Inr (tb_TableConstraints tb) \<and>
    unmarshal_into TableInheritance_type TableInheritance_of
      ''unmarshal inheritance for table %s: %w'' name inh = Inr (tb_Inheritance tb)"
    unfolding table_row_def assms(1) by (cases tb) (auto split: sum.splits)
  then show ?thesis
    using assms(2) by (simp add: unmarshal_into_Inr_iff [OF stats_type.go_type_axioms]
        unmarshal_into_Inr_iff [OF inheritance_type.go_type_axioms]
        unmarshal_nullable_Inr_iff [OF columns_type.go_type_axioms]
        unmarshal_nullable_Inr_iff [OF indexes_type.go_type_axioms]
        unmarshal_nullable_Inr_iff [OF constraints_type.go_type_axioms])
qed

text \<open>C20: a table is decoded exactly as its documents describe it. For documents in which no object repeats a
  name, a row yields the table with these columns, indexes, constraints, parents and sizes if and only
  if its documents are JSON and represent them; a NULL list is empty; a NULL statistics or inheritance
  document is an error.\<close>

theorem table_row_iff:
  assumes "pgx_ScanTable x r = Inr (oid, name, schema, own, comment, stats, cols, idxs, cons, inh)"
    and "\<forall>data \<in> {stats, cols, idxs, cons, inh}. single_names (bytes data)"
  shows "table_row x d r = Inr tb \<longleftrightarrow>
    tb_Oid tb = oid \<and> tb_Name tb = name \<and> tb_Schema tb = schema \<and> tb_Owner tb = own \<and>
    tb_Comment tb = comment \<and>
    describes TableStats_type (TableStats_to (tb_Stats tb)) (bytes stats) \<and>
    describes_nullable (GSlice (GPtr TableColumn_type)) (slice_to (ptr_to TableColumn_to)) (tb_TableColumns tb) cols \<and>
    describes_nullable (GSlice (GPtr TableIndex_type)) (slice_to (ptr_to TableIndex_to)) (tb_TableIndexes tb) idxs \<and>
    describes_nullable (GSlice (GPtr TableConstraint_type)) (slice_to (ptr_to TableConstraint_to))
      (tb_TableConstraints tb) cons \<and>
    describes TableInheritance_type (TableInheritance_to (tb_Inheritance tb)) (bytes inh)"
  by (rule table_row_Inr_iff [OF assms])

text \<open>A driver whose tables have a null in the list of columns.\<close>

definition demo_null :: "(u32 \<times> string) pgx" where
  "demo_null = demo_pgx\<lparr>pgx_ScanTable := (\<lambda>(oid, n). Inr (oid, n, ''public'', ''postgres'', None, Some ''{}'',
     Some ''[null]'', None, None, Some ''{}''))\<rparr>"

lemma parse_null_list: "parse_json ''[null]'' = Some (JArr [JNull])"
  by (simp add: parse_json_def lex_json.simps is_space_def punctuation_def add_token_def scan_step_def
      push_state_def maxNestingDepth_def)

lemma demo_null_row: "table_row demo_null d (1, n) = Inr ((demo_table n)\<lparr>tb_TableColumns := [None]\<rparr>)"
  by (simp add: table_row_def demo_null_def unmarshal_into_def unmarshal_nullable_def Unmarshal_def parse_empty
      parse_null_list TableStats_type_def TableInheritance_type_def TableStats_of_def TableInheritance_of_def
      field_def word_of_def slice_of_def ptr_of_def demo_table_def)

theorem table_row_iff_witness:
  "describes_nullable (GSlice (GPtr TableColumn_type)) (slice_to (ptr_to TableColumn_to)) [None] (Some ''[null]'') \<and>
   describes TableStats_type (TableStats_to (tb_Stats (demo_table ''t''))) ''{}''"
proof -
  have scan: "pgx_ScanTable demo_null (1, ''t'') = Inr (1, ''t'', ''public'', ''postgres'', None, Some ''{}'',
      Some ''[null]'', None, None, Some ''{}'')"
    by (simp add: demo_null_def)
  have "\<forall>data \<in> {Some ''{}'', Some ''[null]'', None, None, Some ''{}''}. single_names (bytes data)"
    by (simp add: single_names_def bytes_def parse_empty parse_null_list)
      (simp add: parse_json_def)
  from table_row_iff [OF scan this, of "''app''" "(demo_table ''t'')\<lparr>tb_TableColumns := [None]\<rparr>"] show ?thesis
    by (simp add: demo_null_row bytes_def)
qed

end
