(* ===== verification/Extractor_Server.thy ===== *)
theory Extractor_Server
  imports Pgbackrest Pg_Tables
begin

text \<open>
  \<open>internal/extractor/server.go\<close>: the handlers of the gRPC service. A handler returns a message or the
  error it builds with \<open>status.Errorf\<close>, a value of \<open>status_error\<close>: the code, the template and its
  arguments. The request messages have no fields and are left out. \<open>tableToProto\<close> dereferences pointers
  that come from JSON documents: it and its caller return an option, \<open>None\<close> for the panic of a nil
  dereference.
\<close>

section \<open>Handlers\<close>

datatype Code = Internal | NotFound

datatype status_error = Status Code string "fmt_arg list"

type_synonym 'a rpc = "status_error + 'a"

fun status_code :: "status_error \<Rightarrow> Code" where
  "status_code (Status c t as) = c"

record Server =
  sv_store :: Store

definition NewServer :: "Store \<Rightarrow> Server" where
  "NewServer s = \<lparr>sv_store = s\<rparr>"

definition Server_ListDatabases :: "'raw pgx \<Rightarrow> Server \<Rightarrow> Pb_ListDatabasesResponse rpc" where
  "Server_ListDatabases x s =
     (case snd (ListDatabases x (sv_store s)) of
        Inl err \<Rightarrow> Inl (Status Internal ''failed to list databases: %v'' [ArgErr err])
      | Inr dbs \<Rightarrow> Inr \<lparr>pbl_Databases = map Database_ToProto dbs\<rparr>)"

definition Server_ListBackups :: "(string list \<Rightarrow> string go) \<Rightarrow> Server \<Rightarrow> Pb_ListBackupsResponse rpc" where
  "Server_ListBackups command s =
     (case ListBackups command (sv_store s) of
        Inl err \<Rightarrow> Inl (Status Internal ''%v'' [ArgErr err])
      | Inr [] \<Rightarrow> Inl (Status NotFound ''no stanza found'' [])
      | Inr (info # _) \<Rightarrow>
        (case pi_Db info of
           [] \<Rightarrow> Inl (Status Internal ''pgbackrest info is not complete, missing db field'' [])
         | db # _ \<Rightarrow>
           (let dbVersion = pdb_Version db in
            if dbVersion = []
            then Inl (Status Internal ''could not extract PG version from pgbackrest info'' [])
            else Inr \<lparr>pbl_Stanza = pi_Name info,
                      pbl_Backups = map (\<lambda>b. Backup_ToProto b dbVersion) (pi_Backup info)\<rparr>)))"

definition Server_GetServerInfo :: "'raw pgx \<Rightarrow> Server \<Rightarrow> Pb_GetServerInfoResponse rpc" where
  "Server_GetServerInfo x s =
     (case GetServerInfo x (sv_store s) of
        Inl err \<Rightarrow> Inl (Status Internal ''failed to get server info: %v'' [ArgErr err])
      | Inr info \<Rightarrow>
        (case ServerInfoToProto info (st_ClusterName (sv_store s)) of
           Inl err \<Rightarrow> Inl (Status Internal ''failed to convert ServerInfo to RPC: %v'' [ArgErr err])
         | Inr resp \<Rightarrow> Inr resp))"

definition Server_ListSchemas ::
  "'raw pgx \<Rightarrow> Server \<Rightarrow> (string \<Rightarrow> go_error option) \<Rightarrow> nat list \<Rightarrow> Pb_ListSchemasResponse rpc" where
  "Server_ListSchemas x s acq sched =
     (case ListSchemas x (sv_store s) acq sched of
        Inl err \<Rightarrow> Inl (Status Internal ''failed to list schemas: %v'' [ArgErr err])
      | Inr schemas \<Rightarrow> Inr \<lparr>pbl_Schemas = map Schema_ToProto schemas\<rparr>)"

definition Server_ListExtensions ::
  "'raw pgx \<Rightarrow> Server \<Rightarrow> (string \<Rightarrow> go_error option) \<Rightarrow> nat list \<Rightarrow> Pb_ListExtensionsResponse rpc" where
  "Server_ListExtensions x s acq sched =
     (case ListExtensions x (sv_store s) acq sched of
        Inl err \<Rightarrow> Inl (Status Internal ''failed to list extensions: %v'' [ArgErr err])
      | Inr (available, installed) \<Rightarrow> Inr (ExtensionsToProto available installed))"

definition Server_ListSequences ::
  "'raw pgx \<Rightarrow> Server \<Rightarrow> (string \<Rightarrow> go_error option) \<Rightarrow> nat list \<Rightarrow> Pb_ListSequencesResponse rpc" where
  "Server_ListSequences x s acq sched =
     (case ListSequences x (sv_store s) acq sched of
        Inl err \<Rightarrow> Inl (Status Internal ''failed to list sequences: %v'' [ArgErr err])
      | Inr seqs \<Rightarrow> Inr \<lparr>pbl_Sequences = map Sequence_ToProto seqs\<rparr>)"

definition Server_ListFunctions ::
  "'raw pgx \<Rightarrow> Server \<Rightarrow> (string \<Rightarrow> go_error option) \<Rightarrow> nat list \<Rightarrow> Pb_ListFunctionsResponse rpc" where
  "Server_ListFunctions x s acq sched =
     (case ListFunctions x (sv_store s) acq sched of
        Inl err \<Rightarrow> Inl (Status Internal ''failed to list functions: %v'' [ArgErr err])
      | Inr functions \<Rightarrow> Inr \<lparr>pbl_Functions = map Function_ToProto functions\<rparr>)"

definition TableColumn_toProto :: "TableColumn \<Rightarrow> Pb_TableColumn" where
  "TableColumn_toProto col = \<lparr>pbtc_Name = tc_Name col, pbtc_Type = tc_Type col,
     pbtc_NotNull = tc_NotNull col, pbtc_IsInherited = tc_IsInherited col\<rparr>"

definition TableIndex_toProto :: "TableIndex \<Rightarrow> Pb_TableIndex" where
  "TableIndex_toProto idx = \<lparr>pbix_Name = ix_Name idx, pbix_Type = ix_Type idx,
     pbix_Columns = ix_Columns idx, pbix_IsUnique = ix_IsUnique idx, pbix_IsPrimary = ix_IsPrimary idx,
     pbix_IsExclusion = ix_IsExclusion idx, pbix_IsPartial = ix_IsPartial idx,
     pbix_IsValid = ix_IsValid idx, pbix_IsInherited = ix_IsInherited idx,
     pbix_SizeBytes = ix_SizeBytes idx, pbix_Definition = ix_Definition idx\<rparr>"

definition TableConstraint_toProto :: "TableConstraint \<Rightarrow> Pb_TableConstraint" where
  "TableConstraint_toProto con =
     (let pc = \<lparr>pbcon_Name = con_Name con, pbcon_Type = con_Type con,
                pbcon_LocalColumns = con_LocalColumns con, pbcon_ForeignTable = None,
                pbcon_ForeignColumns = con_ForeignColumns con, pbcon_Definition = con_Definition con\<rparr>
      in if con_ForeignTable con \<noteq> [] then pc\<lparr>pbcon_ForeignTable := Some (con_ForeignTable con)\<rparr> else pc)"

definition InheritanceRelation_toProto :: "InheritanceRelation \<Rightarrow> Pb_InheritanceRelation" where
  "InheritanceRelation_toProto parent = \<lparr>pbir_Name = ir_Name parent, pbir_Oid = ir_Oid parent\<rparr>"

text \<open>A loop that dereferences every pointer of a slice.\<close>

definition deref_map :: "('a \<Rightarrow> 'b) \<Rightarrow> 'a option list \<Rightarrow> 'b list option" where
  "deref_map f ps = those (map (map_option f) ps)"

definition tableToProto :: "Table \<Rightarrow> Pb_Table option" where
  "tableToProto t =
     Option.bind (deref_map TableColumn_toProto (tb_TableColumns t)) (\<lambda>columns.
     Option.bind (deref_map TableIndex_toProto (tb_TableIndexes t)) (\<lambda>indexes.
     Option.bind (deref_map TableConstraint_toProto (tb_TableConstraints t)) (\<lambda>constraints.
     Option.bind (deref_map InheritanceRelation_toProto (ti_ParentTables (tb_Inheritance t))) (\<lambda>parentTables.
     Some \<lparr>pbtb_Oid = tb_Oid t, pbtb_Name = tb_Name t, pbtb_Schema = tb_Schema t, pbtb_Owner = tb_Owner t,
           pbtb_Comment = tb_Comment t,
           pbtb_Stats = \<lparr>pbts_RowEstimate = ts_RowEstimate (tb_Stats t),
             pbts_TotalSizeBytes = ts_TotalSizeBytes (tb_Stats t),
             pbts_HeapSizeBytes = ts_HeapSizeBytes (tb_Stats t),
             pbts_ToastSizeBytes = ts_ToastSizeBytes (tb_Stats t)\<rparr>,
           pbtb_Columns = columns, pbtb_Indexes = indexes, pbtb_Constraints = constraints,
           pbtb_Inheritance = \<lparr>pbti_ParentTables = parentTables\<rparr>\<rparr>))))"

definition Server_ListTables ::
  "'raw pgx \<Rightarrow> Server \<Rightarrow> (string \<Rightarrow> go_error option) \<Rightarrow> nat list \<Rightarrow> Pb_ListTablesResponse rpc option" where
  "Server_ListTables x s acq sched =
     (case ListTables x (sv_store s) acq sched of
        Inl err \<Rightarrow> Some (Inl (Status Internal ''failed to list tables: %v'' [ArgErr err]))
      | Inr tablesInfo \<Rightarrow>
        map_option (\<lambda>databaseTables. Inr \<lparr>pbl_DatabaseTables = databaseTables\<rparr>)
          (those (map (\<lambda>dbTables.
             map_option (\<lambda>tables. \<lparr>pbdt_Database = tbi_Database dbTables, pbdt_Tables = tables\<rparr>)
               (those (map tableToProto (tbi_Tables dbTables)))) tablesInfo)))"

section \<open>Table messages are lossless\<close>

definition TableColumn_ofProto :: "Pb_TableColumn \<Rightarrow> TableColumn" where
  "TableColumn_ofProto p = \<lparr>tc_Name = pbtc_Name p, tc_Type = pbtc_Type p, tc_NotNull = pbtc_NotNull p,
     tc_IsInherited = pbtc_IsInherited p\<rparr>"

definition TableIndex_ofProto :: "Pb_TableIndex \<Rightarrow> TableIndex" where
  "TableIndex_ofProto p = \<lparr>ix_Name = pbix_Name p, ix_Type = pbix_Type p, ix_Definition = pbix_Definition p,
     ix_Columns = pbix_Columns p, ix_SizeBytes = pbix_SizeBytes p, ix_IsUnique = pbix_IsUnique p,
     ix_IsPrimary = pbix_IsPrimary p, ix_IsExclusion = pbix_IsExclusion p,
     ix_IsPartial = pbix_IsPartial p, ix_IsValid = pbix_IsValid p, ix_IsInherited = pbix_IsInherited p\<rparr>"

definition TableConstraint_ofProto :: "Pb_TableConstraint \<Rightarrow> TableConstraint" where
  "TableConstraint_ofProto p = \<lparr>con_Name = pbcon_Name p, con_Type = pbcon_Type p,
     con_ForeignTable = (case pbcon_ForeignTable p of None \<Rightarrow> [] | Some n \<Rightarrow> n),
     con_Definition = pbcon_Definition p, con_LocalColumns = pbcon_LocalColumns p,
     con_ForeignColumns = pbcon_ForeignColumns p\<rparr>"

definition InheritanceRelation_ofProto :: "Pb_InheritanceRelation \<Rightarrow> InheritanceRelation" where
  "InheritanceRelation_ofProto p = \<lparr>ir_Name = pbir_Name p, ir_Oid = pbir_Oid p\<rparr>"

interpretation column_pb: lossless TableColumn_toProto TableColumn_ofProto
  by unfold_locales (simp add: TableColumn_toProto_def TableColumn_ofProto_def)

interpretation index_pb: lossless TableIndex_toProto TableIndex_ofProto
  by unfold_locales (simp add: TableIndex_toProto_def TableIndex_ofProto_def)

interpretation constraint_pb: lossless TableConstraint_toProto TableConstraint_ofProto
  by unfold_locales (simp add: TableConstraint_toProto_def TableConstraint_ofProto_def Let_def)

interpretation relation_pb: lossless InheritanceRelation_toProto InheritanceRelation_ofProto
  by unfold_locales (simp add: InheritanceRelation_toProto_def InheritanceRelation_ofProto_def)

definition Table_ofProto :: "Pb_Table \<Rightarrow> Table" where
  "Table_ofProto p = \<lparr>tb_Name = pbtb_Name p, tb_Schema = pbtb_Schema p, tb_Owner = pbtb_Owner p,
     tb_Comment = pbtb_Comment p,
     tb_TableColumns = map (Some \<circ> TableColumn_ofProto) (pbtb_Columns p),
     tb_TableIndexes = map (Some \<circ> TableIndex_ofProto) (pbtb_Indexes p),
     tb_TableConstraints = map (Some \<circ> TableConstraint_ofProto) (pbtb_Constraints p),
     tb_Inheritance = \<lparr>ti_ParentTables =
       map (Some \<circ> InheritanceRelation_ofProto) (pbti_ParentTables (pbtb_Inheritance p))\<rparr>,
     tb_Stats = \<lparr>ts_RowEstimate = pbts_RowEstimate (pbtb_Stats p),
       ts_TotalSizeBytes = pbts_TotalSizeBytes (pbtb_Stats p),
       ts_HeapSizeBytes = pbts_HeapSizeBytes (pbtb_Stats p),
       ts_ToastSizeBytes = pbts_ToastSizeBytes (pbtb_Stats p)\<rparr>,
     tb_Oid = pbtb_Oid p\<rparr>"

lemma deref_map_Some_iff: "deref_map f ps = Some ys \<longleftrightarrow> (\<exists>xs. ps = map Some xs \<and> ys = map f xs)"
proof (induction ps arbitrary: ys)
  case (Cons p ps)
  then show ?case
    by (cases p) (auto simp: deref_map_def Cons_eq_map_conv)
qed (auto simp: deref_map_def)

lemma tableToProto_back: "tableToProto t = Some p \<Longrightarrow> Table_ofProto p = t"
  by (cases t; cases "tb_Inheritance t"; cases "tb_Stats t")
    (auto simp: tableToProto_def Table_ofProto_def deref_map_Some_iff bind_eq_Some_conv)

text \<open>A table with a nil pointer, which is what a null in a JSON list is decoded to.\<close>

definition has_nil :: "Table \<Rightarrow> bool" where
  "has_nil t \<longleftrightarrow> None \<in> set (tb_TableColumns t) \<or> None \<in> set (tb_TableIndexes t) \<or>
     None \<in> set (tb_TableConstraints t) \<or> None \<in> set (ti_ParentTables (tb_Inheritance t))"

lemma those_None_iff: "those xs = None \<longleftrightarrow> None \<in> set xs"
  by (induction xs) (auto split: option.splits)

lemma deref_map_None_iff: "deref_map f ps = None \<longleftrightarrow> None \<in> set ps"
  by (auto simp: deref_map_def those_None_iff)

lemma tableToProto_None_iff: "tableToProto t = None \<longleftrightarrow> has_nil t"
  by (auto simp: tableToProto_def has_nil_def deref_map_None_iff bind_eq_None_conv deref_map_Some_iff)

section \<open>The contract of a list handler\<close>

text \<open>
  The handlers for schemas, sequences and functions: the rows of the fan-out over the workers, converted
  one by one, or the error of the store with the code \<open>Internal\<close>. \<open>listing\<close> is the store's method,
  \<open>items\<close> the repeated field of the response.
\<close>

locale list_rpc = naming_worker worker db_of + lossless to_pb of_pb
  for worker :: "(string \<Rightarrow> go_error option) \<Rightarrow> string \<Rightarrow> 'a list go eff" and db_of :: "'a \<Rightarrow> string"
    and to_pb :: "'a \<Rightarrow> 'b" and of_pb :: "'b \<Rightarrow> 'a" +
  fixes pb_db :: "'b \<Rightarrow> string"
    and databases :: "Database list go"
    and handler :: "(string \<Rightarrow> go_error option) \<Rightarrow> nat list \<Rightarrow> 'r rpc"
    and items :: "'r \<Rightarrow> 'b list"
  assumes pb_db: "pb_db (to_pb r) = db_of r"
    and handler_ok: "handler acq sched = Inr resp \<Longrightarrow> databases = Inr dbs \<Longrightarrow>
      \<exists>rs. forEachDatabase sched dbs (\<lambda>d. snd (worker acq d)) = Inr rs \<and> items resp = map to_pb rs"
begin

lemma response_complete:
  assumes "databases = Inr dbs" "is_schedule sched dbs" "distinct (map db_Name dbs)"
    and "handler acq sched = Inr resp" "db \<in> set dbs"
  shows "snd (worker acq (db_Name db)) =
    Inr (map of_pb (filter (\<lambda>p. pb_db p = db_Name db) (items resp)))"
proof -
  obtain rs where rs: "forEachDatabase sched dbs (\<lambda>d. snd (worker acq d)) = Inr rs" "items resp = map to_pb rs"
    using handler_ok [OF assms(4,1)] by blast
  have "filter (\<lambda>p. pb_db p = db_Name db) (items resp) = map to_pb (filter (\<lambda>r. db_of r = db_Name db) rs)"
    by (simp add: rs(2) filter_map o_def pb_db)
  then show ?thesis
    using fan_out_partition(1) [OF assms(2,3) rs(1)] assms(5) by (simp add: o_def)
qed

end

interpretation schemas_rpc: list_rpc "listSchemasForDatabase x (sv_store s)" sch_Database Schema_ToProto
    Schema_ofProto pbsch_Database "snd (ListDatabases x (sv_store s))" "Server_ListSchemas x s" pbl_Schemas
  for x :: "'raw pgx" and s
  by unfold_locales (auto simp: Schema_ToProto_def Server_ListSchemas_def ListSchemas_def split: sum.splits)

interpretation sequences_rpc: list_rpc "listSequencesForDatabase x (sv_store s)" seq_Database Sequence_ToProto
    Sequence_ofProto pbseq_Database "snd (ListDatabases x (sv_store s))" "Server_ListSequences x s" pbl_Sequences
  for x :: "'raw pgx" and s
  by unfold_locales (auto simp: Sequence_ToProto_def Server_ListSequences_def ListSequences_def split: sum.splits)

interpretation functions_rpc: list_rpc "listFunctionsForDatabase x (sv_store s)" fn_Database Function_ToProto
    Function_ofProto pbfn_Database "snd (ListDatabases x (sv_store s))" "Server_ListFunctions x s" pbl_Functions
  for x :: "'raw pgx" and s
  by unfold_locales (auto simp: Function_ToProto_def Server_ListFunctions_def ListFunctions_def split: sum.splits)

interpretation extensions_rpc: list_rpc "listInstalledExtensionsForDatabase x (sv_store s)" ie_Database
    InstalledExtension_toProto InstalledExtension_ofProto pbie_Database "snd (ListDatabases x (sv_store s))"
    "Server_ListExtensions x s" pble_Installed
  for x :: "'raw pgx" and s
  by unfold_locales (auto simp: InstalledExtension_toProto_def Server_ListExtensions_def ListExtensions_def
      ExtensionsToProto_def split: sum.splits)

section \<open>Properties\<close>

text \<open>C13: a successful response is complete. For databases with distinct names and every order of arrival, a
  client that selects the entries of one database from a response of \<open>ListSchemas\<close>, \<open>ListSequences\<close>,
  \<open>ListFunctions\<close> or \<open>ListExtensions\<close> and decodes them has exactly the rows the worker of that
  database read, in order.\<close>

theorem responses_complete:
  assumes "snd (ListDatabases x (sv_store s)) = Inr dbs" "is_schedule sched dbs" "distinct (map db_Name dbs)"
    and "db \<in> set dbs" "d = db_Name db"
  shows "(\<forall>r. Server_ListSchemas x s acq sched = Inr r \<longrightarrow>
      snd (listSchemasForDatabase x (sv_store s) acq d) =
        Inr (map Schema_ofProto (filter (\<lambda>p. pbsch_Database p = d) (pbl_Schemas r)))) \<and>
    (\<forall>r. Server_ListSequences x s acq sched = Inr r \<longrightarrow>
      snd (listSequencesForDatabase x (sv_store s) acq d) =
        Inr (map Sequence_ofProto (filter (\<lambda>p. pbseq_Database p = d) (pbl_Sequences r)))) \<and>
    (\<forall>r. Server_ListFunctions x s acq sched = Inr r \<longrightarrow>
      snd (listFunctionsForDatabase x (sv_store s) acq d) =
        Inr (map Function_ofProto (filter (\<lambda>p. pbfn_Database p = d) (pbl_Functions r)))) \<and>
    (\<forall>r. Server_ListExtensions x s acq sched = Inr r \<longrightarrow>
      snd (listInstalledExtensionsForDatabase x (sv_store s) acq d) =
        Inr (map InstalledExtension_ofProto (filter (\<lambda>p. pbie_Database p = d) (pble_Installed r))))"
  using schemas_rpc.response_complete [OF assms(1-3) _ assms(4)]
    sequences_rpc.response_complete [OF assms(1-3) _ assms(4)]
    functions_rpc.response_complete [OF assms(1-3) _ assms(4)]
    extensions_rpc.response_complete [OF assms(1-3) _ assms(4)] assms(5)
  by blast

text \<open>\<open>tableToProto\<close> panics exactly for a table with a nil pointer, and otherwise keeps everything: the
  client can rebuild the table from the message, the empty and the missing foreign table being the
  same.\<close>

theorem tableToProto_total:
  "(tableToProto t = None \<longleftrightarrow> has_nil t) \<and> (\<forall>p. tableToProto t = Some p \<longrightarrow> Table_ofProto p = t)"
  by (simp add: tableToProto_None_iff tableToProto_back)

lemma Server_ListTables_None_iff:
  "Server_ListTables x s acq sched = None \<longleftrightarrow>
    (\<exists>infos. ListTables x (sv_store s) acq sched = Inr infos \<and>
      (\<exists>info \<in> set infos. \<exists>t \<in> set (tbi_Tables info). has_nil t))"
  by (auto simp: Server_ListTables_def those_None_iff tableToProto_None_iff eq_commute [of None] image_iff
      split: sum.splits)

lemma those_Some_iff: "those xs = Some ys \<longleftrightarrow> xs = map Some ys"
  by (induction xs arbitrary: ys) (auto simp: Cons_eq_map_conv split: option.splits)

text \<open>What a client decodes from a response is what the store returned.\<close>

lemma Server_ListTables_back:
  assumes "Server_ListTables x s acq sched = Some (Inr resp)"
  shows "\<exists>infos. ListTables x (sv_store s) acq sched = Inr infos \<and>
    map (\<lambda>t. (pbdt_Database t, map Table_ofProto (pbdt_Tables t))) (pbl_DatabaseTables resp) =
    map (\<lambda>i. (tbi_Database i, tbi_Tables i)) infos"
proof -
  have tables: "map Table_ofProto ps = ts" if "map tableToProto ts = map Some ps" for ts ps
    using that
  proof (induction ts arbitrary: ps)
    case (Cons t ts)
    then show ?case by (cases ps) (auto simp: tableToProto_back)
  qed simp
  obtain infos where infos: "ListTables x (sv_store s) acq sched = Inr infos"
    "map (\<lambda>i. map_option (\<lambda>ts. \<lparr>pbdt_Database = tbi_Database i, pbdt_Tables = ts\<rparr>)
       (those (map tableToProto (tbi_Tables i)))) infos = map Some (pbl_DatabaseTables resp)"
    using assms by (auto simp: Server_ListTables_def those_Some_iff split: sum.splits)
  have "map (\<lambda>t. (pbdt_Database t, map Table_ofProto (pbdt_Tables t))) ms = map (\<lambda>i. (tbi_Database i, tbi_Tables i)) is"
    if "map (\<lambda>i. map_option (\<lambda>ts. \<lparr>pbdt_Database = tbi_Database i, pbdt_Tables = ts\<rparr>)
       (those (map tableToProto (tbi_Tables i)))) is = map Some ms" for ms "is"
    using that
  proof (induction "is" arbitrary: ms)
    case (Cons i "is")
    then show ?case
      by (cases ms) (auto simp: those_Some_iff tables)
  qed simp
  with infos show ?thesis by blast
qed

text \<open>C25: \<open>ListTables\<close> panics exactly when the store returned a table with a nil pointer; with tables free of
  them the handler always returns.\<close>

theorem Server_ListTables_panics_iff:
  "Server_ListTables x s acq sched = None \<longleftrightarrow>
    (\<exists>infos. ListTables x (sv_store s) acq sched = Inr infos \<and>
      (\<exists>info \<in> set infos. \<exists>t \<in> set (tbi_Tables info). has_nil t))"
  by (rule Server_ListTables_None_iff)

lemma unat_widen: "unat (ucast (w :: u8) :: u32) = unat w"
  using unsigned_less [of w, where 'a = nat] by (simp add: unsigned_ucast_eq take_bit_nat_eq_self)

text \<open>C24: the backups of a response. A response is built from the first entry of the report only; it has one
  message per backup with the backup's label, type, times and sizes, its repository key with the same
  value after widening from 8 to 32 bits, and, for every backup, the PostgreSQL version of the first
  entry of \<open>db\<close>, whatever database the backup names.\<close>

theorem ListBackups_response:
  assumes "Server_ListBackups command s = Inr r"
  shows "\<exists>info rest db dbs. ListBackups command (sv_store s) = Inr (info # rest) \<and> pi_Db info = db # dbs \<and>
    pdb_Version db \<noteq> [] \<and> pbl_Stanza r = pi_Name info \<and>
    list_all2 (\<lambda>b p. pbb_Label p = bk_Label b \<and> pbb_Type p = bk_Type b \<and>
        pbb_TimestampStart p = bt_Start (bk_Timestamp b) \<and> pbb_TimestampStop p = bt_Stop (bk_Timestamp b) \<and>
        pbb_BackupSize p = bs_Size (bk_Info b) \<and> pbb_RepoSize p = pr_Size (bs_Repository (bk_Info b)) \<and>
        unat (pbb_RepoKey p) = unat (pd_RepoKey (bk_Database b)) \<and> pbb_Error p = bk_Error b \<and>
        pbb_DatabaseVersion p = pdb_Version db)
      (pi_Backup info) (pbl_Backups r)"
  using assms
  by (auto simp: Server_ListBackups_def Backup_ToProto_def list_all2_map2 list_all2_same Let_def
      unat_widen split: sum.splits list.splits if_splits)

text \<open>A server over the demonstration store, and a \<open>pgbackrest\<close> that prints the demonstration report.\<close>

definition demo_server :: Server where
  "demo_server = NewServer demo_store"

definition demo_command :: "string list \<Rightarrow> string go" where
  "demo_command args = (if args = [''pgbackrest'', ''info'', ''--stanza=main'', ''--output=json'']
     then Inr demo_report else Inl (ErrorString ''exit status 1''))"

lemma demo_ListBackups: "ListBackups demo_command (sv_store demo_server) = Inr [demo_info]"
  by (simp add: ListBackups_def demo_command_def demo_server_def NewServer_def demo_store_def demo_decode)

theorem ListBackups_response_witness:
  "\<exists>r p. Server_ListBackups demo_command demo_server = Inr r \<and> pbl_Backups r = [p] \<and>
     pd_Id (bk_Database (hd (pi_Backup demo_info))) = 2 \<and>
     map (\<lambda>d. (pdb_Id d, pdb_Version d)) (pi_Db demo_info) = [(1, ''14''), (2, ''15'')] \<and>
     pbb_DatabaseVersion p = ''14''"
proof -
  obtain r where r: "Server_ListBackups demo_command demo_server = Inr r"
    by (simp add: Server_ListBackups_def demo_ListBackups demo_info_def Let_def)
  from ListBackups_response [OF r] show ?thesis
    using r by (auto simp: demo_ListBackups demo_info_def list_all2_Cons1)
qed

lemma demo_Server_ListSchemas:
  "Server_ListSchemas demo_pgx demo_server (\<lambda>_. None) [1, 0] = Inr \<lparr>pbl_Schemas = map Schema_ToProto demo_schemas\<rparr>"
  using demo_ListSchemas by (simp add: Server_ListSchemas_def demo_server_def NewServer_def)

theorem responses_complete_witness:
  "snd (listSchemasForDatabase demo_pgx demo_store (\<lambda>_. None) ''app'') =
     Inr [\<lparr>sch_Database = ''app'', sch_Name = ''pg:app'', sch_Owner = ''postgres'', sch_Oid = 1\<rparr>]"
proof -
  have dbs: "snd (ListDatabases demo_pgx (sv_store demo_server)) = Inr demo_dbs"
    by (simp add: demo_server_def NewServer_def demo_ListDatabases)
  have "\<lparr>db_Name = ''app'', db_Oid = 5\<rparr> \<in> set demo_dbs" "''app'' = db_Name \<lparr>db_Name = ''app'', db_Oid = 5\<rparr>"
    by (simp_all add: demo_dbs_def)
  from responses_complete [OF dbs demo_dbs_schedule this, of "\<lambda>_. None"] demo_Server_ListSchemas show ?thesis
    by (simp add: demo_schemas_def demo_server_def NewServer_def Schema_ToProto_def Schema_ofProto_def)
qed

theorem tableToProto_total_witness:
  "\<exists>p. tableToProto (demo_table ''t'') = Some p \<and> Table_ofProto p = demo_table ''t''"
proof -
  have "\<not> has_nil (demo_table ''t'')"
    by (simp add: has_nil_def demo_table_def)
  then show ?thesis
    using tableToProto_total [of "demo_table ''t''"] by (metis not_None_eq)
qed

lemmas handler_defs = Server_ListDatabases_def Server_GetServerInfo_def Server_ListSchemas_def
  Server_ListExtensions_def Server_ListSequences_def Server_ListFunctions_def Server_ListTables_def

text \<open>C26: the code of an error. Every error of the service has the code \<open>Internal\<close>, a cancelled request
  included, except that \<open>ListBackups\<close> answers \<open>NotFound\<close> exactly when the report is an empty list.\<close>

theorem error_codes:
  "(Server_ListDatabases x s = Inl e \<or> Server_GetServerInfo x s = Inl e \<or>
    Server_ListSchemas x s acq sched = Inl e \<or> Server_ListExtensions x s acq sched = Inl e \<or>
    Server_ListSequences x s acq sched = Inl e \<or> Server_ListFunctions x s acq sched = Inl e \<or>
    Server_ListTables x s acq sched = Some (Inl e) \<longrightarrow> status_code e = Internal) \<and>
   (Server_ListBackups command s = Inl e \<longrightarrow>
    (status_code e = NotFound \<longleftrightarrow> ListBackups command (sv_store s) = Inr []))"
proof (intro conjI impI)
  assume "Server_ListDatabases x s = Inl e \<or> Server_GetServerInfo x s = Inl e \<or>
    Server_ListSchemas x s acq sched = Inl e \<or> Server_ListExtensions x s acq sched = Inl e \<or>
    Server_ListSequences x s acq sched = Inl e \<or> Server_ListFunctions x s acq sched = Inl e \<or>
    Server_ListTables x s acq sched = Some (Inl e)"
  then show "status_code e = Internal"
    by (elim disjE) (auto simp: handler_defs split: sum.splits)
next
  assume "Server_ListBackups command s = Inl e"
  then show "status_code e = NotFound \<longleftrightarrow> ListBackups command (sv_store s) = Inr []"
    by (auto simp: Server_ListBackups_def Let_def split: sum.splits list.splits if_splits)
qed

theorem error_codes_witness:
  "\<exists>e. Server_ListSchemas demo_pgx demo_server (\<lambda>d. Some (ErrorString ''context canceled'')) [1, 0] = Inl e \<and>
     status_code e = Internal"
proof -
  obtain e where "Server_ListSchemas demo_pgx demo_server (\<lambda>d. Some (ErrorString ''context canceled'')) [1, 0] = Inl e"
    by (simp add: Server_ListSchemas_def demo_server_def NewServer_def demo_store_simps)
  then show ?thesis
    using error_codes [of demo_pgx demo_server e] by blast
qed

text \<open>A response of \<open>GetServerInfo\<close> reports what the server said: the version in its \<open>version()\<close> text,
  its on/off settings as flags, its timeline with the same value after widening from 8 to 32 bits, the
  cluster name the store loaded, and every other value unchanged; and a response exists exactly when
  the version and both settings can be parsed.\<close>

theorem GetServerInfo_response:
  assumes "pgx_QueryServerInfo x (st_pool (sv_store s)) SqlServerInfo =
    Inr (inRecovery, readOnly, ssl, port, maxConn, archive, wal, dataDir, sysId, timeline, version)"
  shows "Server_GetServerInfo x s = Inr r \<longleftrightarrow>
    parsePgVersion version = Inr (pbs_PgVersion r) \<and> on_off readOnly (pbs_IsReadOnly r) \<and>
    on_off ssl (pbs_SslEnabled r) \<and> sint (pbs_TimelineId r) = sint timeline \<and>
    pbs_ClusterName r = st_ClusterName (sv_store s) \<and> pbs_IsInRecovery r = inRecovery \<and>
    pbs_Port r = port \<and> pbs_MaxConnections r = maxConn \<and> pbs_ArchiveMode r = archive \<and>
    pbs_DataDirectory r = dataDir \<and> pbs_SystemIdentifier r = sysId \<and> pbs_WalLevel r = wal"
proof -
  let ?info = "\<lparr>si_PgVersion = version, si_IsReadOnly = readOnly, si_SslEnabled = ssl,
    si_ArchiveMode = archive, si_DataDirectory = dataDir, si_WalLevel = wal, si_IsInRecovery = inRecovery,
    si_TimelineID = timeline, si_Port = port, si_MaxConnections = maxConn, si_SystemIdentifier = sysId\<rparr>"
  have "Server_GetServerInfo x s = Inr r \<longleftrightarrow> ServerInfoToProto ?info (st_ClusterName (sv_store s)) = Inr r"
    by (simp add: Server_GetServerInfo_def GetServerInfo_def assms split: sum.splits)
  then show ?thesis
    by (simp add: ServerInfoToProto_Inr_iff)
qed

theorem GetServerInfo_response_witness:
  "\<exists>r. Server_GetServerInfo demo_pgx demo_server = Inr r \<and> pbs_PgVersion r = ''15.13'' \<and>
     \<not> pbs_IsReadOnly r \<and> pbs_SslEnabled r \<and> pbs_TimelineId r = 1"
proof -
  have h: "pgx_QueryServerInfo demo_pgx (st_pool (sv_store demo_server)) SqlServerInfo =
      Inr (False, ''off'', ''on'', 5432, 100, ''off'', ''replica'', ''/data'', 7, 1, ''PostgreSQL 15.13 (Debian)'')"
    by (simp add: demo_pgx_def)
  let ?r = "\<lparr>pbs_ClusterName = ''cluster-1'', pbs_PgVersion = ''15.13'', pbs_IsInRecovery = False,
    pbs_IsReadOnly = False, pbs_SslEnabled = True, pbs_Port = 5432, pbs_MaxConnections = 100,
    pbs_ArchiveMode = ''off'', pbs_DataDirectory = ''/data'', pbs_SystemIdentifier = 7, pbs_TimelineId = 1,
    pbs_WalLevel = ''replica''\<rparr>"
  have "Server_GetServerInfo demo_pgx demo_server = Inr ?r"
    unfolding GetServerInfo_response [OF h]
    by (simp add: parsePgVersion_eq Let_def is_digit_def on_off_def lower_byte_def is_upper_def demo_server_def
        NewServer_def demo_store_def)
  then show ?thesis by simp
qed

end
