(* ===== verification/Net_Url.thy ===== *)
theory Net_Url
  imports Go_Prelude "HOL-Library.List_Lexorder" "HOL-Library.Char_ord"
begin

text \<open>
  The part of Go's standard library that builds connection strings: \<open>net/url\<close> (escaping, the query
  encoding, \<open>URL.String\<close>) and the decimal form of integers printed by \<open>fmt\<close>. The percent decoder
  \<open>unescape\<close> is the reader's side, used to state that nothing is lost.
\<close>

section \<open>Escaping\<close>

datatype encoding = encodePath | encodeHost | encodeUserPassword | encodeQueryComponent

definition is_alnum :: "char \<Rightarrow> bool" where
  "is_alnum c \<longleftrightarrow> is_lower c \<or> is_upper c \<or> is_digit c"

text \<open>The punctuation a host may contain: exclamation mark (0x21), double quote (0x22), dollar,
  ampersand, apostrophe (0x27), parentheses, and the rest of the list in the library.\<close>

definition host_punctuation :: "char list" where
  "host_punctuation = [CHR 0x21, CHR 0x24, CHR 0x26, CHR 0x27, CHR 0x28, CHR 0x29, CHR 0x2A,
     CHR 0x2B, CHR 0x2C, CHR 0x3B, CHR 0x3D, CHR 0x3A, CHR 0x5B, CHR 0x5D, CHR 0x3C, CHR 0x3E, CHR 0x22]"

definition reserved :: "char list" where
  "reserved = [CHR ''$'', CHR ''&'', CHR ''+'', CHR '','', CHR ''/'', CHR '':'', CHR '';'', CHR ''='',
     CHR ''?'', CHR ''@'']"

definition shouldEscape :: "char \<Rightarrow> encoding \<Rightarrow> bool" where
  "shouldEscape c mode =
     (if is_alnum c then False
      else if mode = encodeHost \<and> c \<in> set host_punctuation then False
      else if c \<in> {CHR ''-'', CHR ''_'', CHR ''.'', CHR ''~''} then False
      else if c \<in> set reserved then
        (case mode of
           encodePath \<Rightarrow> c = CHR ''?''
         | encodeUserPassword \<Rightarrow> c \<in> {CHR ''@'', CHR ''/'', CHR ''?'', CHR '':''}
         | encodeQueryComponent \<Rightarrow> True
         | encodeHost \<Rightarrow> True)
      else True)"

definition upperhex :: "nat \<Rightarrow> char" where
  "upperhex n = (if n < 10 then char_of (48 + n) else char_of (55 + n))"

fun escape :: "encoding \<Rightarrow> string \<Rightarrow> string" where
  "escape mode [] = []"
| "escape mode (c # s) =
     (if c = CHR '' '' \<and> mode = encodeQueryComponent then CHR ''+'' # escape mode s
      else if shouldEscape c mode
      then CHR ''%'' # upperhex (of_char c div 16) # upperhex (of_char c mod 16) # escape mode s
      else c # escape mode s)"

section \<open>Queries and URLs\<close>

text \<open>\<open>url.Values\<close> with one value per key: \<open>Set\<close> replaces, \<open>Encode\<close> sorts by key.\<close>

type_synonym Values = "(string \<times> string) list"

definition Values_Set :: "string \<Rightarrow> string \<Rightarrow> Values \<Rightarrow> Values" where
  "Values_Set k v q = (k, v) # filter (\<lambda>(k', v'). k' \<noteq> k) q"

fun join_amp :: "string list \<Rightarrow> string" where
  "join_amp [] = []"
| "join_amp [x] = x"
| "join_amp (x # y # xs) = x @ CHR ''&'' # join_amp (y # xs)"

definition Values_Encode :: "Values \<Rightarrow> string" where
  "Values_Encode q = join_amp (map (\<lambda>(k, v).
     escape encodeQueryComponent k @ CHR ''='' # escape encodeQueryComponent v) (sort_key fst q))"

text \<open>The fields of \<open>url.URL\<close> the program sets; the others keep their zero value.\<close>

record URL =
  url_Scheme :: string
  url_User :: "string option"
  url_Host :: string
  url_Path :: string
  url_RawQuery :: string

definition EscapedPath :: "URL \<Rightarrow> string" where
  "EscapedPath u = (if url_Path u = ''*'' then ''*'' else escape encodePath (url_Path u))"

definition URL_String :: "URL \<Rightarrow> string" where
  "URL_String u =
     (if url_Scheme u \<noteq> [] then url_Scheme u @ '':'' else []) @
     (if url_Scheme u \<noteq> [] \<or> url_Host u \<noteq> [] \<or> url_User u \<noteq> None then
        (if url_Host u \<noteq> [] \<or> url_Path u \<noteq> [] \<or> url_User u \<noteq> None then ''//'' else []) @
        (case url_User u of None \<Rightarrow> [] | Some n \<Rightarrow> escape encodeUserPassword n @ ''@'') @
        (if url_Host u \<noteq> [] then escape encodeHost (url_Host u) else [])
      else []) @
     (let path = EscapedPath u in
      (if path \<noteq> [] \<and> hd path \<noteq> CHR ''/'' \<and> url_Host u \<noteq> [] then ''/'' else []) @ path) @
     (if url_RawQuery u \<noteq> [] then ''?'' @ url_RawQuery u else [])"

section \<open>Reading back\<close>

fun unescape :: "bool \<Rightarrow> string \<Rightarrow> string option" where
  "unescape pl [] = Some []"
| "unescape pl (c # s) =
     (if c = CHR ''%'' then
        (case s of
           a # b # t \<Rightarrow> (case (unhex a, unhex b) of
               (Some h, Some l) \<Rightarrow> map_option (\<lambda>r. char_of (16 * h + l) # r) (unescape pl t)
             | _ \<Rightarrow> None)
         | _ \<Rightarrow> None)
      else map_option (\<lambda>r. (if pl \<and> c = CHR ''+'' then CHR '' '' else c) # r) (unescape pl s))"

section \<open>Lemmas\<close>

lemma upperhex_unhex: "n < 16 \<Longrightarrow> unhex (upperhex n) = Some n"
  by (simp add: unhex_def upperhex_def is_digit_def Let_def take_bit_nat_eq_self)

lemma nibbles: "(of_char c :: nat) div 16 < 16" "(of_char c :: nat) mod 16 < 16"
  using nat_of_char_less_256 [of c] by (simp_all add: less_mult_imp_div_less)

lemma shouldEscape_percent [simp]: "shouldEscape (CHR ''%'') m"
  by (simp add: shouldEscape_def is_alnum_def byte_classes host_punctuation_def reserved_def)

lemma shouldEscape_plus [simp]: "shouldEscape (CHR ''+'') encodeQueryComponent"
  by (simp add: shouldEscape_def is_alnum_def byte_classes reserved_def)

lemma unescape_escape: "unescape (m = encodeQueryComponent) (escape m s) = Some s"
proof (induction s)
  case (Cons c s)
  then show ?case
    using nibbles [of c] by (auto simp: upperhex_unhex)
qed simp

lemma escape_inj: "escape m s = escape m t \<longleftrightarrow> s = t"
  using unescape_escape by (metis option.inject)

lemma escape_Nil_iff [simp]: "escape m s = [] \<longleftrightarrow> s = []"
  by (cases s) auto

text \<open>Which bytes can occur in an escaped string.\<close>

lemma upperhex_alnum: "n < 16 \<Longrightarrow> is_alnum (upperhex n)"
  by (auto simp: upperhex_def is_alnum_def byte_classes take_bit_nat_eq_self)

lemma escape_chars:
  assumes "c \<in> set (escape m s)"
  shows "is_alnum c \<or> c = CHR ''%'' \<or> c = CHR ''+'' \<or> \<not> shouldEscape c m"
  using assms
proof (induction s)
  case (Cons d s)
  then show ?case
    using nibbles [of d] by (auto split: if_splits simp: upperhex_alnum)
qed simp

lemma escape_avoids:
  "shouldEscape c m \<Longrightarrow> c \<noteq> CHR ''%'' \<Longrightarrow> c \<noteq> CHR ''+'' \<Longrightarrow> \<not> is_alnum c \<Longrightarrow> c \<notin> set (escape m s)"
  using escape_chars by blast

lemma escape_delimiters:
  "CHR ''@'' \<notin> set (escape encodeUserPassword s)" "CHR ''/'' \<notin> set (escape encodeUserPassword s)"
  "CHR ''?'' \<notin> set (escape encodeUserPassword s)" "CHR ''#'' \<notin> set (escape encodeUserPassword s)"
  "CHR ''@'' \<notin> set (escape encodeHost s)" "CHR ''/'' \<notin> set (escape encodeHost s)"
  "CHR ''?'' \<notin> set (escape encodeHost s)" "CHR ''#'' \<notin> set (escape encodeHost s)"
  "CHR ''?'' \<notin> set (escape encodePath s)" "CHR ''#'' \<notin> set (escape encodePath s)"
  "CHR ''&'' \<notin> set (escape encodeQueryComponent s)" "CHR ''='' \<notin> set (escape encodeQueryComponent s)"
  "CHR ''#'' \<notin> set (escape encodeQueryComponent s)"
  by (intro escape_avoids; simp add: shouldEscape_def is_alnum_def byte_classes host_punctuation_def
      reserved_def)+

end
