(* ===== verification/Go_Flag.thy ===== *)
theory Go_Flag
  imports Go_Prelude
begin

text \<open>
  The parts of the Go library that \<open>NewConfig\<close> rests on: \<open>flag.Parse\<close> for string and int flags, and
  \<open>strconv.ParseInt(s, 0, 64)\<close>, with which the flag package reads an int.

  The loops that accumulate a \<open>uint64\<close> keep it as a \<^typ>\<open>u64\<close>, with the cut-off and wrap-around tests of
  the library; \<open>parse_digits_iff\<close> shows that these tests find exactly the numerals that do not fit.
  \<open>Parse_iff\<close> describes the command lines that are accepted, as a grammar.
\<close>

section \<open>Integers in any base\<close>

text \<open>The library's \<open>lower\<close> sets bit 5 of the byte.\<close>

definition lower_bit :: "char \<Rightarrow> char" where
  "lower_bit c = char_of (or (of_char c) (32 :: nat))"

definition digit_of :: "char \<Rightarrow> nat option" where
  "digit_of c =
     (if is_digit c then Some (of_char c - 48)
      else if is_lower (lower_bit c) then Some (of_char (lower_bit c) - 87)
      else None)"

datatype num_error = ErrSyntax | ErrRange

text \<open>The loop of \<open>ParseUint\<close> with base 0: \<open>n\<close> is the value so far; the result also says whether
  underscores were seen.\<close>

definition max_u64 :: u64 where
  "max_u64 = - 1"

fun parse_digits :: "nat \<Rightarrow> u64 \<Rightarrow> bool \<Rightarrow> string \<Rightarrow> num_error + u64 \<times> bool" where
  "parse_digits base n us [] = Inr (n, us)"
| "parse_digits base n us (c # s) =
     (if c = CHR ''_'' then parse_digits base n True s
      else case digit_of c of
        None \<Rightarrow> Inl ErrSyntax
      | Some d \<Rightarrow>
          if d \<ge> base then Inl ErrSyntax
          else if n \<ge> max_u64 div of_nat base + 1 then Inl ErrRange
          else let n' = n * of_nat base; n1 = n' + of_nat d in
            if n1 < n' \<or> n1 > max_u64 then Inl ErrRange else parse_digits base n1 us s)"

text \<open>The base and the digits that follow the prefix.\<close>

definition base_prefix :: "string \<Rightarrow> nat \<times> string" where
  "base_prefix s =
     (if s ! 0 = CHR ''0'' then
        if length s \<ge> 3 \<and> lower_bit (s ! 1) = CHR ''b'' then (2, drop 2 s)
        else if length s \<ge> 3 \<and> lower_bit (s ! 1) = CHR ''o'' then (8, drop 2 s)
        else if length s \<ge> 3 \<and> lower_bit (s ! 1) = CHR ''x'' then (16, drop 2 s)
        else (8, drop 1 s)
      else (10, s))"

datatype saw = SawStart | SawDigit | SawUnderscore | SawOther

fun underscores_between :: "bool \<Rightarrow> saw \<Rightarrow> string \<Rightarrow> bool" where
  "underscores_between hex saw [] \<longleftrightarrow> saw \<noteq> SawUnderscore"
| "underscores_between hex saw (c # s) =
     (if is_digit c \<or> hex \<and> lower_bit c \<in> set ''abcdef''
      then underscores_between hex SawDigit s
      else if c = CHR ''_''
      then saw = SawDigit \<and> underscores_between hex SawUnderscore s
      else saw \<noteq> SawUnderscore \<and> underscores_between hex SawOther s)"

definition underscoreOK :: "string \<Rightarrow> bool" where
  "underscoreOK s0 =
     (let s = (if s0 \<noteq> [] \<and> (hd s0 = CHR ''-'' \<or> hd s0 = CHR ''+'') then tl s0 else s0) in
      if length s \<ge> 2 \<and> s ! 0 = CHR ''0'' \<and> lower_bit (s ! 1) \<in> set ''box''
      then underscores_between (lower_bit (s ! 1) = CHR ''x'') SawDigit (drop 2 s)
      else underscores_between False SawStart s)"

definition ParseUint_base0 :: "string \<Rightarrow> num_error + u64" where
  "ParseUint_base0 s =
     (if s = [] then Inl ErrSyntax
      else case base_prefix s of (base, digits) \<Rightarrow>
        (case parse_digits base 0 False digits of
           Inl e \<Rightarrow> Inl e
         | Inr (n, underscores) \<Rightarrow>
             if underscores \<and> \<not> underscoreOK s then Inl ErrSyntax else Inr n))"

text \<open>On a range error of \<open>ParseUint\<close> the value is the largest \<open>uint64\<close>, which is out of range here too.\<close>

definition ParseInt_base0 :: "string \<Rightarrow> num_error + i64" where
  "ParseInt_base0 s0 =
     (if s0 = [] then Inl ErrSyntax
      else let neg = (hd s0 = CHR ''-'');
               s = (if hd s0 = CHR ''+'' \<or> hd s0 = CHR ''-'' then tl s0 else s0);
               cutoff = 2 ^ 63 in
        case ParseUint_base0 s of
          Inl ErrSyntax \<Rightarrow> Inl ErrSyntax
        | r \<Rightarrow> (let un = (case r of Inl _ \<Rightarrow> max_u64 | Inr n \<Rightarrow> n) in
            if \<not> neg \<and> un \<ge> cutoff then Inl ErrRange
            else if neg \<and> un > cutoff then Inl ErrRange
            else Inr (if neg then - un else un)))"

section \<open>The flag package\<close>

datatype flag_value = FString string | FInt int

type_synonym FlagSet = "string \<rightharpoonup> flag_value"

definition flag_String :: "string \<Rightarrow> string \<Rightarrow> FlagSet \<Rightarrow> FlagSet" where
  "flag_String name value f = f(name \<mapsto> FString value)"

definition flag_Int :: "string \<Rightarrow> int \<Rightarrow> FlagSet \<Rightarrow> FlagSet" where
  "flag_Int name value f = f(name \<mapsto> FInt value)"

definition numError :: "num_error \<Rightarrow> go_error" where
  "numError e = (case e of ErrSyntax \<Rightarrow> ErrorString ''parse error''
                         | ErrRange \<Rightarrow> ErrorString ''value out of range'')"

fun flag_Set :: "flag_value \<Rightarrow> string \<Rightarrow> go_error + flag_value" where
  "flag_Set (FString old) s = Inr (FString s)"
| "flag_Set (FInt old) s = map_sum numError (\<lambda>w. FInt (sint w)) (ParseInt_base0 s)"

datatype flag_error = ErrHelp | FlagFail go_error

datatype parsed = Seen FlagSet "string list" | Finished "string list" | Failed flag_error

text \<open>The name and, after the first equals sign that is not the first character, the value.\<close>

definition split_equals :: "string \<Rightarrow> string \<times> string option" where
  "split_equals name =
     (let rest = dropWhile (\<lambda>c. c \<noteq> CHR ''='') (tl name) in
      (hd name # takeWhile (\<lambda>c. c \<noteq> CHR ''='') (tl name), if rest = [] then None else Some (tl rest)))"

text \<open>The end of \<open>parseOne\<close>, once the name is known: the value may be the next argument.\<close>

definition set_flag :: "FlagSet \<Rightarrow> string \<Rightarrow> string option \<Rightarrow> string list \<Rightarrow> parsed" where
  "set_flag f name value rest =
     (case f name of
        None \<Rightarrow>
          if name = ''help'' \<or> name = ''h'' then Failed ErrHelp
          else Failed (FlagFail (Errorf ''flag provided but not defined: -%s'' [ArgStr name]))
      | Some fl \<Rightarrow>
          (case (case value of
                   Some v \<Rightarrow> Some (v, rest)
                 | None \<Rightarrow> (case rest of [] \<Rightarrow> None | v # rest' \<Rightarrow> Some (v, rest'))) of
             None \<Rightarrow> Failed (FlagFail (Errorf ''flag needs an argument: -%s'' [ArgStr name]))
           | Some (v, rest') \<Rightarrow>
               (case flag_Set fl v of
                  Inl err \<Rightarrow> Failed (FlagFail (Errorf ''invalid value %q for flag -%s: %v''
                               [ArgStr v, ArgStr name, ArgErr err]))
                | Inr fl' \<Rightarrow> Seen (f(name \<mapsto> fl')) rest')))"

definition parseOne :: "FlagSet \<Rightarrow> string list \<Rightarrow> parsed" where
  "parseOne f args =
     (case args of
        [] \<Rightarrow> Finished []
      | s # rest \<Rightarrow>
          if length s < 2 \<or> s ! 0 \<noteq> CHR ''-'' then Finished args
          else if s ! 1 = CHR ''-'' \<and> length s = 2 then Finished rest
          else let name = drop (if s ! 1 = CHR ''-'' then 2 else 1) s in
            if name = [] \<or> name ! 0 = CHR ''-'' \<or> name ! 0 = CHR ''=''
            then Failed (FlagFail (Errorf ''bad flag syntax: %s'' [ArgStr s]))
            else case split_equals name of (name, value) \<Rightarrow> set_flag f name value rest)"

lemma set_flag_Seen_iff:
  "set_flag f name value rest = Seen f' rest' \<longleftrightarrow>
    (\<exists>fl v fl'. f name = Some fl \<and> flag_Set fl v = Inr fl' \<and> f' = f(name \<mapsto> fl') \<and>
       (value = Some v \<and> rest' = rest \<or> value = None \<and> rest = v # rest'))"
  by (auto simp: set_flag_def split: list.splits option.splits sum.splits)

lemma set_flag_not_Finished: "set_flag f name value rest \<noteq> Finished rest'"
  by (auto simp: set_flag_def split: list.splits option.splits sum.splits)

lemma parseOne_Seen_shorter: "parseOne f args = Seen f' rest \<Longrightarrow> length rest < length args"
  by (auto simp: parseOne_def Let_def set_flag_Seen_iff split: list.splits if_splits prod.splits)

function Parse :: "FlagSet \<Rightarrow> string list \<Rightarrow> flag_error + FlagSet \<times> string list" where
  "Parse f args =
     (case parseOne f args of
        Seen f' rest \<Rightarrow> Parse f' rest
      | Finished rest \<Rightarrow> Inr (f, rest)
      | Failed e \<Rightarrow> Inl e)"
  by pat_completeness auto
termination
  by (relation "measure (length \<circ> snd)") (auto dest: parseOne_Seen_shorter)

declare Parse.simps [simp del]

section \<open>What the integer parser accepts\<close>

text \<open>The value of a numeral over the natural numbers, with no bound.\<close>

fun digits_value :: "nat \<Rightarrow> nat \<Rightarrow> string \<Rightarrow> nat option" where
  "digits_value base n [] = Some n"
| "digits_value base n (c # s) =
     (if c = CHR ''_'' then digits_value base n s
      else case digit_of c of
        None \<Rightarrow> None
      | Some d \<Rightarrow> if d \<ge> base then None else digits_value base (n * base + d) s)"

lemma digits_value_mono: "2 \<le> base \<Longrightarrow> digits_value base n s = Some v \<Longrightarrow> n \<le> v"
proof (induction base n s rule: digits_value.induct)
  case (2 base n c s)
  show ?case
  proof (cases "c = CHR ''_''")
    case False
    with 2 obtain d where "digit_of c = Some d" "d < base" "n * base + d \<le> v"
      by (auto split: option.splits if_splits)
    moreover have "n \<le> n * base"
      using 2(3) by simp
    ultimately show ?thesis by linarith
  qed (use 2 in simp)
qed simp

lemma unat_max_u64: "unat max_u64 = 2 ^ 64 - 1"
  by (simp add: max_u64_def unsigned_minus_1_eq_mask mask_eq_exp_minus_1)

lemma unat_u64_less: "unat (n :: u64) < 2 ^ 64"
  using unsigned_less [of n, where ?'a = nat] by simp

lemma cutoff_exceeded:
  assumes "2 \<le> base" "base \<le> 36"
  shows "n \<ge> max_u64 div of_nat base + 1 \<longleftrightarrow> 2 ^ 64 \<le> unat n * base"
proof -
  let ?q = "(2 ^ 64 - 1) div base"
  have b: "unat (of_nat base :: u64) = base"
    using assms by (simp add: unat_of_nat take_bit_nat_eq_self)
  have div: "unat (max_u64 div of_nat base) = ?q"
    by (simp only: unat_div unat_max_u64 b)
  have "?q \<le> (2 ^ 64 - 1) div 2"
    using assms by (intro div_le_mono2) auto
  then have "unat (max_u64 div of_nat base) + unat (1 :: u64) < 2 ^ LENGTH(64)"
    unfolding div by simp
  then have "unat (max_u64 div of_nat base + 1) = ?q + 1"
    unfolding unat_add_lem by (simp add: div)
  then have "n \<ge> max_u64 div of_nat base + 1 \<longleftrightarrow> ?q < unat n"
    by (simp add: word_le_nat_alt Suc_le_eq)
  also have "\<dots> \<longleftrightarrow> 2 ^ 64 - 1 < unat n * base"
    using assms by (subst div_less_iff_less_mult) auto
  finally show ?thesis by (simp add: Suc_le_eq [symmetric])
qed

lemma digit_step:
  assumes "2 \<le> base" "base \<le> 36" "d < base"
    and "n' = n * of_nat base" "n1 = n' + of_nat d"
  shows "(n \<ge> max_u64 div of_nat base + 1 \<or> n1 < n' \<or> n1 > max_u64) \<longleftrightarrow> 2 ^ 64 \<le> unat n * base + d"
    and "unat n * base + d < 2 ^ 64 \<Longrightarrow> unat n1 = unat n * base + d"
proof -
  have b: "unat (of_nat base :: u64) = base" "unat (of_nat d :: u64) = d"
    using assms by (simp_all add: unat_of_nat take_bit_nat_eq_self)
  have top: "\<not> n1 > max_u64"
    using unat_u64_less [of n1] unat_max_u64 by (simp add: word_less_nat_alt)
  show *: "unat n * base + d < 2 ^ 64 \<Longrightarrow> unat n1 = unat n * base + d"
  proof -
    assume less: "unat n * base + d < 2 ^ 64"
    then have "unat n' = unat n * base"
      using b unfolding assms(4) by (simp add: unat_word_ariths)
    with less b show "unat n1 = unat n * base + d"
      unfolding assms(5) by (simp add: unat_word_ariths)
  qed
  show "(n \<ge> max_u64 div of_nat base + 1 \<or> n1 < n' \<or> n1 > max_u64) \<longleftrightarrow> 2 ^ 64 \<le> unat n * base + d"
  proof (cases "2 ^ 64 \<le> unat n * base")
    case True
    then show ?thesis
      using cutoff_exceeded [OF assms(1,2)] by auto
  next
    case False
    then have n': "unat n' = unat n * base"
      using b unfolding assms(4) by (simp add: unat_word_ariths)
    have "n1 < n' \<longleftrightarrow> 2 ^ 64 \<le> unat n' + unat (of_nat d :: u64)"
      using unat_u64_less [of "of_nat d"] unfolding assms(5) word_less_nat_alt unat_plus_if'
      by (auto simp: b)
    then show ?thesis
      using False top cutoff_exceeded [OF assms(1,2), of n] b n' by simp
  qed
qed

lemma parse_digits_iff:
  assumes "2 \<le> base" "base \<le> 36"
  shows "parse_digits base n us s = Inr (m, us') \<longleftrightarrow>
    digits_value base (unat n) s = Some (unat m) \<and> us' = (us \<or> CHR ''_'' \<in> set s)"
  using assms
proof (induction base n us s rule: parse_digits.induct)
  case (2 base n us c s)
  show ?case
  proof (cases "c = CHR ''_'' \<or> digit_of c = None \<or> (\<exists>d. digit_of c = Some d \<and> d \<ge> base)")
    case False
    then obtain d where d: "digit_of c = Some d" "d < base" "c \<noteq> CHR ''_''"
      by (cases "digit_of c") auto
    let ?n1 = "n * of_nat base + of_nat d"
    note step = digit_step [OF "2.prems" d(2) refl refl, of n]
    show ?thesis
    proof (cases "2 ^ 64 \<le> unat n * base + d")
      case True
      then have "digits_value base (unat n * base + d) s \<noteq> Some (unat m)"
        using digits_value_mono [OF "2.prems"(1), of "unat n * base + d" s "unat m"] unat_u64_less [of m]
        by fastforce
      with True step d show ?thesis by (auto simp: Let_def)
    next
      case False
      then have "parse_digits base n us (c # s) = parse_digits base ?n1 us s"
        using step(1) d by (simp add: Let_def)
      with False step d 2 show ?thesis by (auto simp: Let_def not_le)
    qed
  qed (use 2 in auto)
qed (auto simp: word_unat_eq_iff)

text \<open>The value of an integer literal in the syntax of Go, with no bound.\<close>

definition nat_literal :: "string \<Rightarrow> nat option" where
  "nat_literal s =
     (if s = [] then None
      else case base_prefix s of (base, digits) \<Rightarrow>
        if CHR ''_'' \<in> set digits \<and> \<not> underscoreOK s then None else digits_value base 0 digits)"

definition int_literal :: "string \<Rightarrow> int option" where
  "int_literal s =
     (case s of
        [] \<Rightarrow> None
      | c # t \<Rightarrow>
          if c = CHR ''-'' then map_option (\<lambda>n. - int n) (nat_literal t)
          else if c = CHR ''+'' then map_option int (nat_literal t)
          else map_option int (nat_literal s))"

lemma base_prefix_base: "base_prefix s = (base, digits) \<Longrightarrow> 2 \<le> base \<and> base \<le> 36"
  by (auto simp: base_prefix_def split: if_splits)

lemma ParseUint_base0_iff: "ParseUint_base0 s = Inr n \<longleftrightarrow> nat_literal s = Some (unat n)"
proof (cases "base_prefix s")
  case (Pair base digits)
  note b = base_prefix_base [OF Pair]
  have "ParseUint_base0 s = Inr n \<longleftrightarrow> s \<noteq> [] \<and>
      (\<exists>us. parse_digits base 0 False digits = Inr (n, us) \<and> \<not> (us \<and> \<not> underscoreOK s))"
    using Pair by (auto simp: ParseUint_base0_def split: sum.splits prod.splits if_splits)
  also have "\<dots> \<longleftrightarrow> nat_literal s = Some (unat n)"
    using parse_digits_iff [OF conjunct1 [OF b] conjunct2 [OF b]] Pair
    by (auto simp: nat_literal_def)
  finally show ?thesis .
qed

lemma sint_word_of_int_i64:
  "- (2 ^ 63) \<le> i \<Longrightarrow> i < 2 ^ 63 \<Longrightarrow> sint (word_of_int i :: i64) = i"
  by (simp add: sint_sbintrunc' signed_take_bit_int_eq_self)

lemma sint_i64_bounds: "- (2 ^ 63) \<le> sint (w :: i64)" "sint (w :: i64) < 2 ^ 63"
  using sint_ge [of w] sint_lt [of w] by simp_all

text \<open>The result of \<open>ParseInt\<close> from that of \<open>ParseUint\<close> and the sign.\<close>

definition signed_of :: "bool \<Rightarrow> num_error + u64 \<Rightarrow> num_error + i64" where
  "signed_of neg r =
     (case r of
        Inl ErrSyntax \<Rightarrow> Inl ErrSyntax
      | Inl ErrRange \<Rightarrow> Inl ErrRange
      | Inr un \<Rightarrow> if (if neg then un > 2 ^ 63 else un \<ge> 2 ^ 63) then Inl ErrRange
                   else Inr (if neg then - un else un))"

lemma max_u64_cutoff: "max_u64 > 2 ^ 63" "max_u64 \<ge> 2 ^ 63"
  by (simp_all add: max_u64_def)

lemma ParseInt_base0_Cons:
  "ParseInt_base0 (c # t) = signed_of (c = CHR ''-'')
     (ParseUint_base0 (if c = CHR ''+'' \<or> c = CHR ''-'' then t else c # t))"
  using max_u64_cutoff by (auto simp: ParseInt_base0_def signed_of_def Let_def split: sum.splits num_error.splits)

lemma signed_of_iff:
  "signed_of neg (ParseUint_base0 t) = Inr w \<longleftrightarrow>
    (\<exists>n. nat_literal t = Some n \<and> (if neg then n \<le> 2 ^ 63 else n < 2 ^ 63) \<and>
       w = word_of_int (if neg then - int n else int n))"
proof -
  have "signed_of neg (ParseUint_base0 t) = Inr w \<longleftrightarrow>
      (\<exists>un. ParseUint_base0 t = Inr un \<and> (if neg then unat un \<le> 2 ^ 63 else unat un < 2 ^ 63) \<and>
        w = word_of_int (if neg then - int (unat un) else int (unat un)))"
    by (auto simp: signed_of_def word_le_nat_alt word_less_nat_alt not_le not_less
        split: sum.splits num_error.splits if_splits)
  also have "\<dots> \<longleftrightarrow> (\<exists>n. nat_literal t = Some n \<and> (if neg then n \<le> 2 ^ 63 else n < 2 ^ 63) \<and>
       w = word_of_int (if neg then - int n else int n))"
  proof -
    have "\<exists>un :: u64. unat un = n" if "if neg then n \<le> 2 ^ 63 else n < 2 ^ 63" for n
      using that by (intro exI [of _ "of_nat n"]) (auto simp: unat_of_nat take_bit_nat_eq_self split: if_splits)
    then show ?thesis
      unfolding ParseUint_base0_iff by blast
  qed
  finally show ?thesis .
qed

lemma sint_eq_iff_i64: "sint (w :: i64) = i \<longleftrightarrow> - (2 ^ 63) \<le> i \<and> i < 2 ^ 63 \<and> w = word_of_int i"
proof
  assume "sint w = i"
  then show "- (2 ^ 63) \<le> i \<and> i < 2 ^ 63 \<and> w = word_of_int i"
    using sint_i64_bounds [of w] by auto
qed (use sint_word_of_int_i64 in blast)

lemma signed_of_sint_iff:
  "signed_of neg (ParseUint_base0 t) = Inr w \<longleftrightarrow>
    map_option (\<lambda>n. if neg then - int n else int n) (nat_literal t) = Some (sint w)"
proof -
  have "(if neg then n \<le> 2 ^ 63 else n < 2 ^ 63) \<and> w = word_of_int (if neg then - int n else int n) \<longleftrightarrow>
      (if neg then - int n else int n) = sint w" for n
    using sint_eq_iff_i64 [of w "if neg then - int n else int n"] by (cases neg) auto
  then show ?thesis
    unfolding signed_of_iff by (cases "nat_literal t") simp_all
qed

lemma ParseInt_base0_iff: "ParseInt_base0 s = Inr w \<longleftrightarrow> int_literal s = Some (sint w)"
proof (cases s)
  case (Cons c t)
  then show ?thesis
    by (auto simp only: ParseInt_base0_Cons signed_of_sint_iff int_literal_def list.case if_True if_False
        split: if_splits)
qed (simp add: ParseInt_base0_def int_literal_def)

text \<open>A decimal numeral, as \<open>%d\<close> writes it, denotes its number.\<close>

lemma digits_value_append:
  "digits_value base n (s @ t) = Option.bind (digits_value base n s) (\<lambda>m. digits_value base m t)"
  by (induction base n s rule: digits_value.induct) (auto split: option.splits)

lemma digit_of_digit: "n < 10 \<Longrightarrow> digit_of (char_of (48 + n)) = Some n \<and> char_of (48 + n) \<noteq> CHR ''_''"
  by (simp add: digit_of_def is_digit_def take_bit_nat_eq_self char_of_eq_iff)

lemma digits_value_show_nat: "digits_value 10 0 (show_nat n) = Some n"
proof (induction n rule: show_nat.induct)
  case (1 n)
  then show ?case
    using digit_of_digit [of "n mod 10"] digit_of_digit [of n]
    by (simp add: show_nat.simps [of n] digits_value_append last_digit)
qed

lemma nat_literal_show_nat: "nat_literal (show_nat n) = Some n"
proof (cases "n = 0")
  case False
  have "CHR ''_'' \<notin> set (show_nat n)"
    using show_nat_chars [of n] by (auto simp: list_all_iff is_digit_def)
  moreover have "base_prefix (show_nat n) = (10, show_nat n)"
    using False show_nat_hd [of n] show_nat_chars [of n] by (simp add: base_prefix_def hd_conv_nth)
  ultimately show ?thesis
    using show_nat_chars [of n] digits_value_show_nat by (simp add: nat_literal_def)
qed (simp add: nat_literal_def show_nat.simps base_prefix_def char_of_eq_iff)

lemma int_literal_show_int: "int_literal (show_int i) = Some i"
proof (cases "i < 0")
  case False
  obtain c t where ct: "show_nat (nat i) = c # t" "is_digit c"
    using show_nat_chars [of "nat i"] by (cases "show_nat (nat i)") auto
  then have "c \<noteq> CHR ''-''" "c \<noteq> CHR ''+''"
    by (auto simp: is_digit_def)
  with False ct show ?thesis
    using nat_literal_show_nat [of "nat i"] by (simp add: int_literal_def show_int_def)
qed (simp add: int_literal_def show_int_def nat_literal_show_nat)

lemma parse_digits_range:
  assumes "2 \<le> base" "base \<le> 36" "digits_value base (unat n) s = Some v" "2 ^ 64 \<le> v"
  shows "parse_digits base n us s = Inl ErrRange"
  using assms
proof (induction base n us s rule: parse_digits.induct)
  case (1 base n us)
  then show ?case using unat_u64_less [of n] by simp
next
  case (2 base n us c s)
  show ?case
  proof (cases "c = CHR ''_''")
    case False
    then obtain d where d: "digit_of c = Some d" "d < base" "digits_value base (unat n * base + d) s = Some v"
      using 2 by (auto split: option.splits if_splits)
    note step = digit_step [OF "2.prems"(1,2) d(2) refl refl, of n]
    show ?thesis
    proof (cases "2 ^ 64 \<le> unat n * base + d")
      case True
      with step(1) d False show ?thesis by (auto simp: Let_def)
    next
      case less: False
      then have "parse_digits base n us (c # s) = parse_digits base (n * of_nat base + of_nat d) us s"
        using step(1) d False by (simp add: Let_def)
      with less step d False 2 show ?thesis by (auto simp: Let_def not_le)
    qed
  qed (use 2 in simp)
qed

lemma ParseUint_base0_range:
  assumes "nat_literal s = Some v" "2 ^ 64 \<le> v"
  shows "ParseUint_base0 s = Inl ErrRange"
proof (cases "base_prefix s")
  case (Pair base digits)
  note b = base_prefix_base [OF Pair]
  have "parse_digits base 0 False digits = Inl ErrRange"
    using parse_digits_range [OF conjunct1 [OF b] conjunct2 [OF b], of 0 digits v] assms Pair
    by (simp add: nat_literal_def split: if_splits)
  with assms Pair show ?thesis
    by (auto simp: ParseUint_base0_def nat_literal_def split: if_splits)
qed

lemma ParseInt_base0_range:
  assumes "int_literal s = Some i" "\<not> (- (2 ^ 63) \<le> i \<and> i < 2 ^ 63)"
  shows "ParseInt_base0 s = Inl ErrRange"
proof -
  have range: "signed_of neg (ParseUint_base0 t) = Inl ErrRange"
    if n: "nat_literal t = Some n" "if neg then n > 2 ^ 63 else n \<ge> 2 ^ 63" for neg t n
  proof (cases "2 ^ 64 \<le> n")
    case False
    then have "unat (of_nat n :: u64) = n"
      by (simp add: unat_of_nat take_bit_nat_eq_self)
    then have "ParseUint_base0 t = Inr (of_nat n)"
      using n(1) by (simp add: ParseUint_base0_iff)
    with n(2) \<open>unat (of_nat n) = n\<close> show ?thesis
      by (auto simp: signed_of_def word_le_nat_alt word_less_nat_alt)
  qed (use n ParseUint_base0_range in \<open>auto simp: signed_of_def\<close>)
  obtain c t where s: "s = c # t"
    using assms(1) by (cases s) (auto simp: int_literal_def)
  show ?thesis
    using assms range unfolding s ParseInt_base0_Cons
    by (auto simp: int_literal_def split: if_splits)
qed

section \<open>The command lines that are accepted\<close>

text \<open>
  A setting of a flag can be written in four ways: with one or two dashes, and with the value joined by
  an equals sign or as the next argument. A command line is a sequence of settings, ended by the end of
  the arguments, by \<open>--\<close>, or by an argument that does not look like a flag.
\<close>

record setting =
  s_double :: bool
  s_joined :: bool
  s_name :: string
  s_value :: string

definition write_setting :: "setting \<Rightarrow> string list" where
  "write_setting s =
     (let flag = (if s_double s then ''--'' else ''-'') @ s_name s in
      if s_joined s then [flag @ ''='' @ s_value s] else [flag, s_value s])"

definition apply_setting :: "setting \<Rightarrow> FlagSet \<Rightarrow> FlagSet option" where
  "apply_setting s f =
     (case f (s_name s) of
        None \<Rightarrow> None
      | Some fl \<Rightarrow> (case flag_Set fl (s_value s) of Inl e \<Rightarrow> None | Inr fl' \<Rightarrow> Some (f(s_name s \<mapsto> fl'))))"

fun apply_settings :: "setting list \<Rightarrow> FlagSet \<Rightarrow> FlagSet option" where
  "apply_settings [] f = Some f"
| "apply_settings (s # ss) f = Option.bind (apply_setting s f) (apply_settings ss)"

definition no_flag :: "string \<Rightarrow> bool" where
  "no_flag a \<longleftrightarrow> length a < 2 \<or> a ! 0 \<noteq> CHR ''-''"

definition ends_flags :: "string list \<Rightarrow> string list \<Rightarrow> bool" where
  "ends_flags args rest \<longleftrightarrow> (args = rest \<and> (rest = [] \<or> no_flag (hd rest))) \<or> args = ''--'' # rest"

definition name_ok :: "string \<Rightarrow> bool" where
  "name_ok name \<longleftrightarrow> name \<noteq> [] \<and> hd name \<noteq> CHR ''-'' \<and> CHR ''='' \<notin> set name"

lemma split_equals_joined: "name_ok name \<Longrightarrow> split_equals (name @ ''='' @ v) = (name, Some v)"
  by (cases name) (auto simp: split_equals_def name_ok_def Let_def takeWhile_append dropWhile_append)

lemma split_equals_alone: "name_ok name \<Longrightarrow> split_equals name = (name, None)"
  by (cases name) (auto simp: split_equals_def name_ok_def Let_def)

lemma split_equals_name:
  assumes "n \<noteq> []" "split_equals n = (name, v)"
  shows "n = name @ (case v of None \<Rightarrow> [] | Some v \<Rightarrow> ''='' @ v)"
proof -
  let ?P = "\<lambda>c. c \<noteq> CHR ''=''"
  let ?rest = "dropWhile ?P (tl n)"
  have n: "n = (hd n # takeWhile ?P (tl n)) @ ?rest"
    using assms(1) by simp
  have eq: "''='' @ tl ?rest = ?rest" if "?rest \<noteq> []"
    using hd_dropWhile [OF that] that by (cases ?rest) auto
  have name: "name = hd n # takeWhile ?P (tl n)" and v: "v = (if ?rest = [] then None else Some (tl ?rest))"
    using assms(2) by (auto simp: split_equals_def Let_def)
  have "(case v of None \<Rightarrow> [] | Some v \<Rightarrow> ''='' @ v) = ?rest"
    using eq unfolding v by (simp del: dropWhile_eq_Nil_conv)
  then show ?thesis
    unfolding name using n by (simp only:)
qed

lemma write_setting_shape:
  "write_setting s \<noteq> []" "name_ok (s_name s) \<Longrightarrow> \<not> no_flag (hd (write_setting s))"
  "name_ok (s_name s) \<Longrightarrow> hd (write_setting s) \<noteq> ''--''"
  by (cases "s_name s"; auto simp: write_setting_def Let_def no_flag_def name_ok_def)+

lemma parseOne_setting:
  assumes "name_ok (s_name s)" "apply_setting s f = Some f'"
  shows "parseOne f (write_setting s @ rest) = Seen f' rest"
proof -
  obtain c t where n: "s_name s = c # t" "c \<noteq> CHR ''-''" "c \<noteq> CHR ''=''"
    using assms by (cases "s_name s") (auto simp: name_ok_def)
  have set: "set_flag f (c # t) (Some (s_value s)) rest = Seen f' rest"
    "set_flag f (c # t) None (s_value s # rest) = Seen f' rest"
    using assms(2) n unfolding set_flag_Seen_iff
    by (auto simp: apply_setting_def split: option.splits sum.splits)
  have "split_equals (c # t @ ''='' @ s_value s) = (c # t, Some (s_value s))"
    "split_equals (c # t) = (c # t, None)"
    using split_equals_joined [OF assms(1)] split_equals_alone [OF assms(1)] n by simp_all
  with n set show ?thesis
    by (simp add: parseOne_def write_setting_def Let_def)
qed

lemma parseOne_SeenE:
  assumes "parseOne f args = Seen f' rest"
  obtains s where "args = write_setting s @ rest" "apply_setting s f = Some f'"
proof -
  obtain a args' where args: "args = a # args'" "length a \<ge> 2" "a ! 0 = CHR ''-''"
    using assms by (auto simp: parseOne_def split: list.splits if_splits)
  let ?double = "a ! 1 = CHR ''-''"
  let ?n = "drop (if ?double then 2 else 1) a"
  have a: "a = (if ?double then ''--'' else ''-'') @ ?n"
    using args(2,3) by (cases a; cases "tl a") auto
  have n: "?n \<noteq> []"
    using assms args by (auto simp: parseOne_def Let_def split: if_splits)
  obtain name v where split: "split_equals ?n = (name, v)"
    by force
  note name = split_equals_name [OF n split]
  obtain fl w fl' where w: "f name = Some fl" "flag_Set fl w = Inr fl'" "f' = f(name \<mapsto> fl')"
    and v: "v = Some w \<and> rest = args' \<or> v = None \<and> args' = w # rest"
    using assms split args(2,3) unfolding parseOne_def args(1)
    by (auto simp: Let_def set_flag_Seen_iff split: if_splits)
  let ?s = "\<lparr>s_double = ?double, s_joined = (v \<noteq> None), s_name = name, s_value = w\<rparr>"
  have "args = write_setting ?s @ rest"
    using v name a args(1) by (auto simp: write_setting_def Let_def)
  moreover have "apply_setting ?s f = Some f'"
    using w by (simp add: apply_setting_def)
  ultimately show ?thesis by (rule that)
qed

lemma parseOne_Finished_iff: "parseOne f args = Finished rest \<longleftrightarrow> ends_flags args rest"
proof (cases args)
  case (Cons a args')
  have dashes: "a ! 1 = CHR ''-'' \<and> length a = 2 \<longleftrightarrow> a = ''--''" if "\<not> no_flag a"
    using that by (cases a; cases "tl a") (auto simp: no_flag_def)
  consider "no_flag a" | "\<not> no_flag a" "a = ''--''" | "\<not> no_flag a" "a \<noteq> ''--''"
    by blast
  then show ?thesis
  proof cases
    case 3
    then have "parseOne f args \<noteq> Finished rest"
      using dashes unfolding parseOne_def Cons no_flag_def
      by (auto simp: Let_def set_flag_not_Finished split: prod.splits)
    with 3 show ?thesis by (auto simp: ends_flags_def Cons)
  qed (auto simp: parseOne_def ends_flags_def Cons no_flag_def)
qed (auto simp: parseOne_def ends_flags_def)

definition flags_ok :: "FlagSet \<Rightarrow> bool" where
  "flags_ok f \<longleftrightarrow> (\<forall>name \<in> dom f. name_ok name)"

lemma apply_setting_ok:
  assumes "apply_setting s f = Some f'" "flags_ok f"
  shows "name_ok (s_name s)" "flags_ok f'"
  using assms by (auto simp: apply_setting_def flags_ok_def split: option.splits sum.splits if_splits)

lemma Parse_complete:
  "apply_settings ss f = Some f' \<Longrightarrow> flags_ok f \<Longrightarrow> ends_flags tail rest \<Longrightarrow>
    Parse f (concat (map write_setting ss) @ tail) = Inr (f', rest)"
proof (induction ss arbitrary: f)
  case Nil
  then show ?case by (simp add: Parse.simps parseOne_Finished_iff [THEN iffD2])
next
  case (Cons s ss)
  then obtain g where g: "apply_setting s f = Some g" "apply_settings ss g = Some f'"
    by (auto simp: bind_eq_Some_conv)
  note ok = apply_setting_ok [OF g(1) Cons.prems(2)]
  show ?case
    using parseOne_setting [OF ok(1) g(1)] Cons.IH [OF g(2) ok(2) Cons.prems(3)]
    by (simp add: Parse.simps [of f])
qed

lemma Parse_sound:
  "Parse f args = Inr (f', rest) \<Longrightarrow>
    \<exists>ss tail. args = concat (map write_setting ss) @ tail \<and> ends_flags tail rest \<and> apply_settings ss f = Some f'"
proof (induction f args rule: Parse.induct)
  case (1 f args)
  show ?case
  proof (cases "parseOne f args")
    case (Seen g args')
    then obtain s where s: "args = write_setting s @ args'" "apply_setting s f = Some g"
      by (rule parseOne_SeenE)
    obtain ss tail where "args' = concat (map write_setting ss) @ tail" "ends_flags tail rest"
      "apply_settings ss g = Some f'"
      using 1 Seen by (auto simp: Parse.simps [of f])
    with s show ?thesis
      by (intro exI [of _ "s # ss"] exI [of _ tail]) simp
  next
    case (Finished r)
    with 1(2) show ?thesis
      by (intro exI [of _ "[]"] exI [of _ args]) (simp add: Parse.simps [of f] parseOne_Finished_iff)
  qed (use 1(2) in \<open>simp add: Parse.simps [of f]\<close>)
qed

lemma Parse_iff:
  assumes "flags_ok f"
  shows "Parse f args = Inr (f', rest) \<longleftrightarrow>
    (\<exists>ss tail. args = concat (map write_setting ss) @ tail \<and> ends_flags tail rest \<and> apply_settings ss f = Some f')"
  using Parse_sound Parse_complete assms by blast

end
