(* ===== verification/Extractor_Config.thy ===== *)
theory Extractor_Config
  imports Net_Url Go_Flag
begin

text \<open>
  \<open>internal/extractor/config.go\<close>: the configuration, its validation, the log level and the connection
  strings. The file system is a parameter: \<open>stat\<close> is what \<open>os.Stat\<close> answers for a path.
\<close>

section \<open>Definitions\<close>

record DbCredentials =
  dbHost :: string
  dbUser :: string
  dbName :: string
  dbSSLMode :: string
  dbSSLCert :: string
  dbSSLKey :: string
  dbSSLRootCert :: string
  dbPort :: int

record Config =
  ListenAddr :: string
  logLevel :: string
  DbCredentials_of :: DbCredentials   \<comment> \<open>the embedded struct\<close>

text \<open>What the pointers returned by \<open>flag.String\<close> and \<open>flag.Int\<close> point to after \<open>flag.Parse\<close>.\<close>

definition string_flag :: "FlagSet \<Rightarrow> string \<Rightarrow> string" where
  "string_flag f name = (case f name of Some (FString s) \<Rightarrow> s | _ \<Rightarrow> [])"

definition int_flag :: "FlagSet \<Rightarrow> string \<Rightarrow> int" where
  "int_flag f name = (case f name of Some (FInt i) \<Rightarrow> i | _ \<Rightarrow> 0)"

text \<open>The flags that \<open>NewConfig\<close> declares, then \<open>NewConfig\<close> as a function of the arguments of the program.
  An error of the command line ends the process.\<close>

definition declared_flags :: FlagSet where
  "declared_flags =
     (flag_String ''log-level'' ''info''
     (flag_String ''listen'' '':50051''
     (flag_String ''db-sslrootcert'' []
     (flag_String ''db-sslkey'' []
     (flag_String ''db-sslcert'' []
     (flag_String ''db-sslmode'' ''verify-full''
     (flag_String ''db-name'' ''postgres''
     (flag_String ''db-user'' ''pgmonitor''
     (flag_Int ''db-port'' 5432
     (flag_String ''db-host'' ''localhost'' Map.empty))))))))))"

definition NewConfig :: "string list \<Rightarrow> flag_error + Config" where
  "NewConfig args =
     (case Parse declared_flags args of
        Inl err \<Rightarrow> Inl err
      | Inr (f, rest) \<Rightarrow> Inr \<lparr>
          ListenAddr = string_flag f ''listen'',
          logLevel = string_flag f ''log-level'',
          DbCredentials_of = \<lparr>
            dbHost = string_flag f ''db-host'',
            dbUser = string_flag f ''db-user'',
            dbName = string_flag f ''db-name'',
            dbSSLMode = string_flag f ''db-sslmode'',
            dbSSLCert = string_flag f ''db-sslcert'',
            dbSSLKey = string_flag f ''db-sslkey'',
            dbSSLRootCert = string_flag f ''db-sslrootcert'',
            dbPort = int_flag f ''db-port''\<rparr>\<rparr>)"

text \<open>The answer of \<open>os.Stat\<close>: a file, an error for which \<open>os.IsNotExist\<close> holds, or another error.\<close>

datatype stat_result = StatOk | StatNotExist go_error | StatFailed go_error

fun stat_all :: "(string \<Rightarrow> stat_result) \<Rightarrow> string list \<Rightarrow> go_error option" where
  "stat_all stat [] = None"
| "stat_all stat (path # paths) =
     (case stat path of
        StatOk \<Rightarrow> stat_all stat paths
      | StatNotExist err \<Rightarrow> Some (Errorf ''SSL certificate file not found: %s'' [ArgStr path])
      | StatFailed err \<Rightarrow> Some (Errorf ''cannot access: %w'' [ArgErr err]))"

definition isValidSSLSettings ::
  "(string \<Rightarrow> stat_result) \<Rightarrow> string \<Rightarrow> string \<Rightarrow> string \<Rightarrow> string \<Rightarrow> go_error option" where
  "isValidSSLSettings stat sslmode sslcert sslkey sslrootcert =
     (let needsCerts = (sslmode = ''verify-ca'' \<or> sslmode = ''verify-full'') in
      if \<not> needsCerts then None
      else if sslcert = [] \<or> sslkey = [] \<or> sslrootcert = []
      then Some (ErrorString ''SSL certificates required for verify-ca and verify-full modes'')
      else stat_all stat [sslcert, sslkey, sslrootcert])"

definition NewCredentials :: "(string \<Rightarrow> stat_result) \<Rightarrow> Config \<Rightarrow> DbCredentials go" where
  "NewCredentials stat c =
     (let d = DbCredentials_of c in
      case isValidSSLSettings stat (dbSSLMode d) (dbSSLCert d) (dbSSLKey d) (dbSSLRootCert d) of
        Some err \<Rightarrow> Inl err
      | None \<Rightarrow> Inr d)"

datatype Level = LevelDebug | LevelInfo | LevelWarn | LevelError

definition LogLevel :: "Config \<Rightarrow> Level go" where
  "LogLevel c =
     (let l = ToLower (logLevel c) in
      if l = ''debug'' then Inr LevelDebug
      else if l = ''info'' then Inr LevelInfo
      else if l = ''warn'' then Inr LevelWarn
      else if l = ''error'' then Inr LevelError
      else Inl (Errorf ''log-level must be one of [debug, info, warn, error], got: %v''
                  [ArgStr (logLevel c)]))"

definition ssl_query :: "DbCredentials \<Rightarrow> Values" where
  "ssl_query d =
     (let q = []; q = (if dbSSLMode d = ''disable'' then Values_Set ''sslmode'' ''disable'' q else q) in
      if dbSSLMode d = ''verify-ca'' \<or> dbSSLMode d = ''verify-full''
      then Values_Set ''sslrootcert'' (dbSSLRootCert d) (Values_Set ''sslkey'' (dbSSLKey d)
             (Values_Set ''sslcert'' (dbSSLCert d) (Values_Set ''sslmode'' (dbSSLMode d) q)))
      else q)"

definition ConnStrForDb :: "DbCredentials \<Rightarrow> string \<Rightarrow> string" where
  "ConnStrForDb d name =
     URL_String \<lparr>url_Scheme = ''postgres'', url_User = Some (dbUser d),
       url_Host = dbHost d @ '':'' @ show_int (dbPort d), url_Path = name,
       url_RawQuery = Values_Encode (ssl_query d)\<rparr>"

definition ConnStr :: "DbCredentials \<Rightarrow> string" where
  "ConnStr d = ConnStrForDb d (dbName d)"

section \<open>The command line\<close>

text \<open>The values a sequence of settings leaves: the last setting of a name wins.\<close>

definition last_string :: "string \<Rightarrow> setting list \<Rightarrow> string \<Rightarrow> string" where
  "last_string name = fold (\<lambda>s v. if s_name s = name then s_value s else v)"

definition last_int :: "string \<Rightarrow> setting list \<Rightarrow> int \<Rightarrow> int" where
  "last_int name = fold (\<lambda>s v. if s_name s = name then the (int_literal (s_value s)) else v)"

definition fits_int64 :: "string \<Rightarrow> bool" where
  "fits_int64 v \<longleftrightarrow> (case int_literal v of None \<Rightarrow> False | Some i \<Rightarrow> - (2 ^ 63) \<le> i \<and> i < 2 ^ 63)"

fun value_fits :: "flag_value option \<Rightarrow> string \<Rightarrow> bool" where
  "value_fits None v = False"
| "value_fits (Some (FString s)) v = True"
| "value_fits (Some (FInt i)) v = fits_int64 v"

lemma ParseInt_base0_eq:
  "ParseInt_base0 v = Inr w \<longleftrightarrow> fits_int64 v \<and> w = word_of_int (the (int_literal v))"
proof (cases "int_literal v")
  case (Some i)
  then show ?thesis
    unfolding ParseInt_base0_iff fits_int64_def using sint_eq_iff_i64 [of w i] by (simp only: Some) auto
qed (simp add: ParseInt_base0_iff fits_int64_def)

lemma flag_Set_Int:
  "flag_Set (FInt i) v = Inr fl' \<longleftrightarrow> fits_int64 v \<and> fl' = FInt (the (int_literal v))"
proof -
  have "flag_Set (FInt i) v = Inr fl' \<longleftrightarrow> (\<exists>w. ParseInt_base0 v = Inr w \<and> fl' = FInt (sint w))"
    by (cases "ParseInt_base0 v") auto
  also have "\<dots> \<longleftrightarrow> fits_int64 v \<and> fl' = FInt (the (int_literal v))"
    unfolding ParseInt_base0_eq by (auto simp: fits_int64_def sint_word_of_int_i64 split: option.splits)
  finally show ?thesis .
qed

text \<open>What a flag holds after settings of which all values fit.\<close>

fun settled :: "string \<Rightarrow> setting list \<Rightarrow> flag_value \<Rightarrow> flag_value" where
  "settled name ss (FString d) = FString (last_string name ss d)"
| "settled name ss (FInt i) = FInt (last_int name ss i)"

lemma settled_simps:
  "settled name [] v = v"
  "settled name (s # ss) v = settled name ss (settled name [s] v)"
  "name \<noteq> s_name s \<Longrightarrow> settled name [s] v = v"
  by (cases v; simp add: last_string_def last_int_def)+

lemma value_fits_settled: "value_fits (map_option (settled name ss) x) v = value_fits x v"
  by (cases "(x, v)" rule: value_fits.cases) auto

lemma apply_setting_iff:
  "apply_setting s f = Some g \<longleftrightarrow>
    value_fits (f (s_name s)) (s_value s) \<and> g = (\<lambda>name. map_option (settled name [s]) (f name))"
proof (cases "f (s_name s)")
  case (Some fl)
  have upd: "(\<lambda>name. map_option (settled name [s]) (f name)) = f(s_name s \<mapsto> settled (s_name s) [s] fl)"
    using Some by (auto simp: fun_eq_iff settled_simps(3) option.map_ident_strong)
  show ?thesis
  proof -
    have "apply_setting s f = Some g \<longleftrightarrow> (\<exists>fl'. flag_Set fl (s_value s) = Inr fl' \<and> g = f(s_name s \<mapsto> fl'))"
      using Some by (auto simp: apply_setting_def split: sum.splits)
    also have "\<dots> \<longleftrightarrow> value_fits (Some fl) (s_value s) \<and> g = f(s_name s \<mapsto> settled (s_name s) [s] fl)"
    proof (cases fl)
      case (FInt i)
      then show ?thesis
        unfolding FInt flag_Set_Int by (simp add: last_int_def)
    qed (simp add: last_string_def)
    finally show ?thesis
      unfolding upd by (simp only: Some)
  qed
qed (simp add: apply_setting_def)

lemma apply_settings_iff:
  "apply_settings ss f = Some g \<longleftrightarrow>
    (\<forall>s \<in> set ss. value_fits (f (s_name s)) (s_value s)) \<and> g = (\<lambda>name. map_option (settled name ss) (f name))"
proof (induction ss arbitrary: f)
  case Nil
  show ?case by (auto simp: fun_eq_iff settled_simps(1) option.map_ident_strong)
next
  case (Cons s ss)
  have eq: "(\<lambda>name. map_option (settled name ss) (map_option (settled name [s]) (f name))) =
      (\<lambda>name. map_option (settled name (s # ss)) (f name))"
    by (auto simp: fun_eq_iff option.map_comp comp_def settled_simps(2) [of _ s ss] intro!: option.map_cong0)
  show ?case
    using Cons.IH [of "\<lambda>name. map_option (settled name [s]) (f name)"]
    by (auto simp: bind_eq_Some_conv apply_setting_iff value_fits_settled eq)
qed

definition settings_ok :: "setting list \<Rightarrow> bool" where
  "settings_ok ss \<longleftrightarrow> (\<forall>s \<in> set ss.
     s_name s = ''db-port'' \<and> fits_int64 (s_value s) \<or>
     s_name s \<in> {''db-host'', ''db-user'', ''db-name'', ''db-sslmode'', ''db-sslcert'', ''db-sslkey'',
       ''db-sslrootcert'', ''listen'', ''log-level''})"

definition settings_config :: "setting list \<Rightarrow> Config" where
  "settings_config ss = \<lparr>
     ListenAddr = last_string ''listen'' ss '':50051'',
     logLevel = last_string ''log-level'' ss ''info'',
     DbCredentials_of = \<lparr>
       dbHost = last_string ''db-host'' ss ''localhost'',
       dbUser = last_string ''db-user'' ss ''pgmonitor'',
       dbName = last_string ''db-name'' ss ''postgres'',
       dbSSLMode = last_string ''db-sslmode'' ss ''verify-full'',
       dbSSLCert = last_string ''db-sslcert'' ss [],
       dbSSLKey = last_string ''db-sslkey'' ss [],
       dbSSLRootCert = last_string ''db-sslrootcert'' ss [],
       dbPort = last_int ''db-port'' ss 5432\<rparr>\<rparr>"

lemmas declared_flag_defs = declared_flags_def flag_String_def flag_Int_def

lemma declared_flags_ok: "flags_ok declared_flags"
  by (simp add: flags_ok_def declared_flag_defs name_ok_def)

lemma settings_ok_iff:
  "settings_ok ss \<longleftrightarrow> (\<forall>s \<in> set ss. value_fits (declared_flags (s_name s)) (s_value s))"
proof -
  have "value_fits (declared_flags name) v \<longleftrightarrow> name = ''db-port'' \<and> fits_int64 v \<or>
     name \<in> {''db-host'', ''db-user'', ''db-name'', ''db-sslmode'', ''db-sslcert'', ''db-sslkey'',
       ''db-sslrootcert'', ''listen'', ''log-level''}" for name v
    unfolding declared_flag_defs by simp
  then show ?thesis
    by (simp only: settings_ok_def)
qed

lemma NewConfig_iff:
  "NewConfig args = Inr c \<longleftrightarrow>
    (\<exists>ss tail rest. args = concat (map write_setting ss) @ tail \<and> ends_flags tail rest \<and>
       settings_ok ss \<and> c = settings_config ss)"
proof -
  define rec where "rec = (\<lambda>f. \<lparr>ListenAddr = string_flag f ''listen'', logLevel = string_flag f ''log-level'',
    DbCredentials_of = \<lparr>dbHost = string_flag f ''db-host'', dbUser = string_flag f ''db-user'',
      dbName = string_flag f ''db-name'', dbSSLMode = string_flag f ''db-sslmode'',
      dbSSLCert = string_flag f ''db-sslcert'', dbSSLKey = string_flag f ''db-sslkey'',
      dbSSLRootCert = string_flag f ''db-sslrootcert'', dbPort = int_flag f ''db-port''\<rparr>\<rparr>)"
  have config: "rec (\<lambda>name. map_option (settled name ss) (declared_flags name)) = settings_config ss" for ss
    by (simp add: settings_config_def string_flag_def int_flag_def declared_flag_defs rec_def)
  have "NewConfig args = Inr c \<longleftrightarrow> (\<exists>f rest. Parse declared_flags args = Inr (f, rest) \<and> c = rec f)"
    by (auto simp: NewConfig_def rec_def split: sum.splits)
  then show ?thesis
    unfolding Parse_iff [OF declared_flags_ok] apply_settings_iff settings_ok_iff config [symmetric] by blast
qed

text \<open>C15: the command lines \<open>NewConfig\<close> accepts and what it makes of them. The arguments are a sequence of
  settings of the ten declared flags, each with one or two dashes and with its value after an equals
  sign or as the next argument, up to the end of the arguments, a \<open>--\<close> or an argument that is no flag;
  the value of \<open>-db-port\<close> is an integer literal of Go that fits into 64 bits. In the configuration every
  field has the value of the last setting of its flag, or its default. Any other command line is
  refused.\<close>

theorem NewConfig_accepts:
  "NewConfig args = Inr c \<longleftrightarrow>
    (\<exists>ss tail rest. args = concat (map write_setting ss) @ tail \<and> ends_flags tail rest \<and>
       settings_ok ss \<and> c = settings_config ss)"
  by (rule NewConfig_iff)

lemma last_int_bounds:
  "settings_ok ss \<Longrightarrow> - (2 ^ 63) \<le> d \<Longrightarrow> d < 2 ^ 63 \<Longrightarrow>
    - (2 ^ 63) \<le> last_int ''db-port'' ss d \<and> last_int ''db-port'' ss d < 2 ^ 63"
proof (induction ss arbitrary: d)
  case (Cons s ss)
  let ?d = "if s_name s = ''db-port'' then the (int_literal (s_value s)) else d"
  have "- (2 ^ 63) \<le> ?d \<and> ?d < 2 ^ 63"
    using Cons.prems by (auto simp: settings_ok_def fits_int64_def split: option.splits)
  moreover have "settings_ok ss" "last_int ''db-port'' (s # ss) d = last_int ''db-port'' ss ?d"
    using Cons.prems(1) by (auto simp: settings_ok_def last_int_def)
  ultimately show ?case
    using Cons.IH [of ?d] by simp
qed (simp add: last_int_def)

lemma NewConfig_port_range:
  assumes "int_literal v = Some i" "\<not> (- (2 ^ 63) \<le> i \<and> i < 2 ^ 63)"
  shows "NewConfig [''-db-port='' @ v] = Inl (FlagFail (Errorf ''invalid value %q for flag -%s: %v''
    [ArgStr v, ArgStr ''db-port'', ArgErr (ErrorString ''value out of range'')]))"
proof -
  have "split_equals (''db-port'' @ ''='' @ v) = (''db-port'', Some v)"
    by (rule split_equals_joined) (simp add: name_ok_def)
  then have "parseOne declared_flags [''-db-port='' @ v] = set_flag declared_flags ''db-port'' (Some v) []"
    by (simp add: parseOne_def Let_def)
  moreover have "declared_flags ''db-port'' = Some (FInt 5432)"
    by (simp add: declared_flag_defs)
  ultimately show ?thesis
    using ParseInt_base0_range [OF assms] by (simp add: NewConfig_def Parse.simps set_flag_def numError_def)
qed

text \<open>C16: the port is an \<open>int\<close> of 64 bits. A decimal port in \<open>-db-port=\<close> is taken as it is when it fits and
  refused as out of range otherwise, never wrapped around; and whatever the command line was, the port of the
  configuration fits.\<close>

theorem db_port_bounds:
  "NewConfig [''-db-port='' @ show_int i] =
    (if - (2 ^ 63) \<le> i \<and> i < 2 ^ 63
     then Inr ((settings_config [])\<lparr>DbCredentials_of := (DbCredentials_of (settings_config []))\<lparr>dbPort := i\<rparr>\<rparr>)
     else Inl (FlagFail (Errorf ''invalid value %q for flag -%s: %v''
       [ArgStr (show_int i), ArgStr ''db-port'', ArgErr (ErrorString ''value out of range'')]))) \<and>
   (NewConfig args = Inr c \<longrightarrow>
     - (2 ^ 63) \<le> dbPort (DbCredentials_of c) \<and> dbPort (DbCredentials_of c) < 2 ^ 63)"
proof
  show "NewConfig [''-db-port='' @ show_int i] =
    (if - (2 ^ 63) \<le> i \<and> i < 2 ^ 63
     then Inr ((settings_config [])\<lparr>DbCredentials_of := (DbCredentials_of (settings_config []))\<lparr>dbPort := i\<rparr>\<rparr>)
     else Inl (FlagFail (Errorf ''invalid value %q for flag -%s: %v''
       [ArgStr (show_int i), ArgStr ''db-port'', ArgErr (ErrorString ''value out of range'')])))"
  proof (cases "- (2 ^ 63) \<le> i \<and> i < 2 ^ 63")
    case True
    let ?s = "\<lparr>s_double = False, s_joined = True, s_name = ''db-port'', s_value = show_int i\<rparr>"
    have "[''-db-port='' @ show_int i] = concat (map write_setting [?s]) @ []" "ends_flags [] []"
      by (simp_all add: write_setting_def ends_flags_def)
    moreover have "settings_ok [?s]"
      using True by (simp add: settings_ok_def fits_int64_def int_literal_show_int)
    moreover have "settings_config [?s] =
        (settings_config [])\<lparr>DbCredentials_of := (DbCredentials_of (settings_config []))\<lparr>dbPort := i\<rparr>\<rparr>"
      by (simp add: settings_config_def last_string_def last_int_def int_literal_show_int)
    ultimately have "NewConfig [''-db-port='' @ show_int i] =
        Inr ((settings_config [])\<lparr>DbCredentials_of := (DbCredentials_of (settings_config []))\<lparr>dbPort := i\<rparr>\<rparr>)"
      unfolding NewConfig_iff by metis
    with True show ?thesis by simp
  next
    case False
    then show ?thesis
      using NewConfig_port_range [OF int_literal_show_int False] by (simp only: if_False)
  qed
  show "NewConfig args = Inr c \<longrightarrow>
     - (2 ^ 63) \<le> dbPort (DbCredentials_of c) \<and> dbPort (DbCredentials_of c) < 2 ^ 63"
    using last_int_bounds [of _ 5432] unfolding NewConfig_iff by (auto simp: settings_config_def)
qed

theorem db_port_bounds_witness:
  "\<exists>c. NewConfig [''-db-port=5433''] = Inr c \<and> dbPort (DbCredentials_of c) = 5433 \<and>
     dbPort (DbCredentials_of c) < 2 ^ 63"
proof -
  have "show_int 5433 = ''5433''"
    by (simp add: show_int_def show_nat.simps char_of_eq_iff)
  then have "NewConfig [''-db-port=5433''] =
      Inr ((settings_config [])\<lparr>DbCredentials_of := (DbCredentials_of (settings_config []))\<lparr>dbPort := 5433\<rparr>\<rparr>)"
    using conjunct1 [OF db_port_bounds, of 5433] by simp
  then show ?thesis by force
qed

section \<open>Validation\<close>

lemma stat_all_None_iff: "stat_all stat paths = None \<longleftrightarrow> (\<forall>p \<in> set paths. stat p = StatOk)"
  by (induction paths) (auto split: stat_result.splits)

text \<open>C35: the settings are accepted exactly when certificates are not needed, or all three paths are given
  and name files that can be accessed; \<open>NewCredentials\<close> returns the credentials unchanged exactly then.\<close>

theorem NewCredentials_ok_iff:
  "NewCredentials stat c = Inr d \<longleftrightarrow> d = DbCredentials_of c \<and>
    (dbSSLMode d \<notin> {''verify-ca'', ''verify-full''} \<or>
     (\<forall>p \<in> {dbSSLCert d, dbSSLKey d, dbSSLRootCert d}. p \<noteq> [] \<and> stat p = StatOk))"
  by (auto simp: NewCredentials_def isValidSSLSettings_def Let_def stat_all_None_iff
      split: option.splits stat_result.splits)

theorem NewCredentials_ok_iff_witness:
  "\<exists>c d. dbSSLMode d = ''verify-full'' \<and> NewCredentials (\<lambda>p. if p = ''/ca'' then StatOk else StatNotExist (ErrorString [])) c = Inr d"
proof -
  let ?d = "\<lparr>dbHost = ''h'', dbUser = ''u'', dbName = ''a'', dbSSLMode = ''verify-full'', dbSSLCert = ''/ca'',
    dbSSLKey = ''/ca'', dbSSLRootCert = ''/ca'', dbPort = 5432\<rparr>"
  have "NewCredentials (\<lambda>p. if p = ''/ca'' then StatOk else StatNotExist (ErrorString []))
      \<lparr>ListenAddr = '':50051'', logLevel = ''info'', DbCredentials_of = ?d\<rparr> = Inr ?d"
    unfolding NewCredentials_ok_iff by simp
  then show ?thesis by force
qed

text \<open>\<open>LogLevel\<close> on an ASCII setting recognises exactly the four level names in any case and reports
  every other setting as it was given.\<close>

lemma ToLower_ascii: "list_all is_ascii s \<Longrightarrow> ToLower s = map lower_byte s"
proof (induction s rule: ToLower.induct)
  case (2 a b c s)
  then have "a \<noteq> CHR 0xC4" "a \<noteq> CHR 0xE2" by auto
  with 2 show ?case by simp
qed auto

lemma LogLevel_ascii:
  assumes "list_all is_ascii (logLevel c)"
  shows "LogLevel c =
    (case map_of [(''debug'', LevelDebug), (''info'', LevelInfo), (''warn'', LevelWarn),
                  (''error'', LevelError)] (map lower_byte (logLevel c)) of
       Some l \<Rightarrow> Inr l
     | None \<Rightarrow> Inl (Errorf ''log-level must be one of [debug, info, warn, error], got: %v''
         [ArgStr (logLevel c)]))"
  using assms by (simp add: LogLevel_def ToLower_ascii Let_def)

section \<open>Connection strings\<close>

lemma escape_ssl_keys:
  "escape encodeQueryComponent ''sslmode'' = ''sslmode''"
  "escape encodeQueryComponent ''sslcert'' = ''sslcert''"
  "escape encodeQueryComponent ''sslkey'' = ''sslkey''"
  "escape encodeQueryComponent ''sslrootcert'' = ''sslrootcert''"
  "escape encodeQueryComponent ''disable'' = ''disable''"
  "escape encodeQueryComponent ''verify-ca'' = ''verify-ca''"
  "escape encodeQueryComponent ''verify-full'' = ''verify-full''"
  by (simp_all add: shouldEscape_def is_alnum_def byte_classes)

lemma ssl_key_order:
  "''sslcert'' \<le> ''sslkey''" "''sslcert'' \<le> ''sslmode''" "''sslcert'' \<le> ''sslrootcert''"
  "''sslkey'' \<le> ''sslmode''" "''sslkey'' \<le> ''sslrootcert''" "''sslmode'' \<le> ''sslrootcert''"
  "\<not> ''sslrootcert'' \<le> ''sslmode''" "\<not> ''sslrootcert'' \<le> ''sslkey''" "\<not> ''sslrootcert'' \<le> ''sslcert''"
  "\<not> ''sslmode'' \<le> ''sslkey''" "\<not> ''sslmode'' \<le> ''sslcert''" "\<not> ''sslkey'' \<le> ''sslcert''"
  by (simp_all add: less_eq_char_def less_char_def)

lemma Values_Encode_ssl:
  "Values_Encode (ssl_query d) =
    (if dbSSLMode d = ''disable'' then ''sslmode=disable''
     else if dbSSLMode d \<in> {''verify-ca'', ''verify-full''}
     then ''sslcert='' @ escape encodeQueryComponent (dbSSLCert d) @
          ''&sslkey='' @ escape encodeQueryComponent (dbSSLKey d) @
          ''&sslmode='' @ dbSSLMode d @
          ''&sslrootcert='' @ escape encodeQueryComponent (dbSSLRootCert d)
     else [])"
  by (auto simp: ssl_query_def Values_Set_def Values_Encode_def Let_def escape_ssl_keys
      ssl_key_order simp del: escape.simps)

text \<open>The path of the connection string, with the slash \<open>URL.String\<close> puts before it.\<close>

definition conn_path :: "string \<Rightarrow> string" where
  "conn_path name = (let p = (if name = ''*'' then ''*'' else escape encodePath name)
     in (if p \<noteq> [] \<and> hd p \<noteq> CHR ''/'' then ''/'' else []) @ p)"

lemma ConnStrForDb_eq:
  "ConnStrForDb d name =
    ''postgres://'' @ escape encodeUserPassword (dbUser d) @ ''@'' @
    escape encodeHost (dbHost d @ '':'' @ show_int (dbPort d)) @ conn_path name @
    (if Values_Encode (ssl_query d) = [] then [] else ''?'' @ Values_Encode (ssl_query d))"
  by (simp add: ConnStrForDb_def URL_String_def EscapedPath_def conn_path_def Let_def)

lemma escape_path_hd:
  "name \<noteq> [] \<Longrightarrow> hd (escape encodePath name) = CHR ''/'' \<longleftrightarrow> hd name = CHR ''/''"
  by (cases name) (auto simp: shouldEscape_def is_alnum_def byte_classes reserved_def)

lemma conn_path_shape: "conn_path name = [] \<or> hd (conn_path name) = CHR ''/''"
  by (auto simp: conn_path_def Let_def)

lemma conn_path_delimiters: "CHR ''?'' \<notin> set (conn_path name)" "CHR ''#'' \<notin> set (conn_path name)"
  using escape_delimiters(9,10) [of name] by (auto simp: conn_path_def Let_def)

lemma unescape_Cons_slash:
  "unescape False (CHR ''/'' # s) = map_option (\<lambda>r. CHR ''/'' # r) (unescape False s)"
  by simp

lemma unescape_conn_path:
  "unescape False (conn_path name) =
    Some (if name = [] \<or> hd name = CHR ''/'' then name else CHR ''/'' # name)"
proof (cases "name = ''*''")
  case False
  have "unescape False (escape encodePath name) = Some name"
    using unescape_escape [of encodePath name] by simp
  with False escape_path_hd [of name] show ?thesis
    by (cases "name = []") (simp_all add: conn_path_def Let_def)
qed (simp add: conn_path_def)

text \<open>How a reader takes a connection string apart: the authority ends at the first slash, question mark
  or hash, the user at the at sign, the path at the question mark or hash; the parts are then
  percent-decoded. The query is returned as it is.\<close>

definition conn_read :: "string \<Rightarrow> string option \<times> string option \<times> string option \<times> string" where
  "conn_read s =
     (let r = drop 11 s;
          in_auth = (\<lambda>c. c \<notin> {CHR ''/'', CHR ''?'', CHR ''#''});
          auth = takeWhile in_auth r; rest = dropWhile in_auth r;
          in_path = (\<lambda>c. c \<notin> {CHR ''?'', CHR ''#''})
      in (unescape False (takeWhile (\<lambda>c. c \<noteq> CHR ''@'') auth),
          unescape False (tl (dropWhile (\<lambda>c. c \<noteq> CHR ''@'') auth)),
          unescape False (takeWhile in_path rest),
          drop 1 (dropWhile in_path rest)))"

lemma conn_read_ConnStrForDb:
  "conn_read (ConnStrForDb d name) =
    (Some (dbUser d), Some (dbHost d @ '':'' @ show_int (dbPort d)),
     Some (if name = [] \<or> hd name = CHR ''/'' then name else CHR ''/'' # name),
     Values_Encode (ssl_query d))"
proof -
  let ?u = "escape encodeUserPassword (dbUser d)"
  let ?host = "dbHost d @ '':'' @ show_int (dbPort d)"
  let ?h = "escape encodeHost ?host"
  let ?p = "conn_path name"
  let ?q = "Values_Encode (ssl_query d)"
  let ?tail = "if ?q = [] then [] else ''?'' @ ?q"
  let ?in_auth = "\<lambda>c. c \<notin> {CHR ''/'', CHR ''?'', CHR ''#''}"
  let ?in_path = "\<lambda>c. c \<notin> {CHR ''?'', CHR ''#''}"
  have r: "drop 11 (ConnStrForDb d name) = (?u @ ''@'' @ ?h) @ ?p @ ?tail"
    unfolding ConnStrForDb_eq by (simp del: escape.simps)
  have "list_all ?in_auth (?u @ ''@'' @ ?h)"
    using escape_delimiters by (auto simp: list_all_iff simp del: escape.simps)
  then have auth: "takeWhile ?in_auth ((?u @ ''@'' @ ?h) @ ?p @ ?tail) = ?u @ ''@'' @ ?h \<and>
      dropWhile ?in_auth ((?u @ ''@'' @ ?h) @ ?p @ ?tail) = ?p @ ?tail"
    by (rule takeWhile_all_dropWhile) (use conn_path_shape [of name] in \<open>auto simp: hd_append\<close>)
  have "list_all ?in_path ?p"
    using conn_path_delimiters [of name] by (auto simp: list_all_iff)
  then have path: "takeWhile ?in_path (?p @ ?tail) = ?p \<and> dropWhile ?in_path (?p @ ?tail) = ?tail"
    by (rule takeWhile_all_dropWhile) auto
  have "list_all (\<lambda>c. c \<noteq> CHR ''@'') ?u"
    using escape_delimiters(1) by (auto simp: list_all_iff simp del: escape.simps)
  then have user: "takeWhile (\<lambda>c. c \<noteq> CHR ''@'') (?u @ ''@'' @ ?h) = ?u \<and>
      dropWhile (\<lambda>c. c \<noteq> CHR ''@'') (?u @ ''@'' @ ?h) = ''@'' @ ?h"
    by (rule takeWhile_all_dropWhile) simp
  have "unescape False ?u = Some (dbUser d)" "unescape False ?h = Some ?host"
    using unescape_escape [of encodeUserPassword "dbUser d"] unescape_escape [of encodeHost ?host]
    by (simp_all del: escape.simps)
  then show ?thesis
    unfolding conn_read_def Let_def r using auth path user unescape_conn_path [of name]
    by (simp del: escape.simps)
qed

text \<open>C33: connection strings are read back exactly. Whatever bytes the user, the host and the database name
  contain, the reader recovers the user, the host with its port, the database name behind one slash
  (or the name as it is, when it is empty or starts with a slash itself) and the query the program
  encoded: no name can end the path early, add a parameter, or change the host.\<close>

theorem ConnStrForDb_read_back:
  "conn_read (ConnStrForDb d name) =
    (Some (dbUser d), Some (dbHost d @ '':'' @ show_int (dbPort d)),
     Some (if name = [] \<or> hd name = CHR ''/'' then name else CHR ''/'' # name),
     Values_Encode (ssl_query d))"
  by (rule conn_read_ConnStrForDb)

text \<open>Databases whose names do not start with a slash have different connection strings, so a worker
  connects to the database it was asked for. (The name \<open>/x\<close> is the exception: it has the connection
  string of \<open>x\<close>.)\<close>

theorem ConnStrForDb_inj:
  assumes "name = [] \<or> hd name \<noteq> CHR ''/''" "name' = [] \<or> hd name' \<noteq> CHR ''/''"
  shows "ConnStrForDb d name = ConnStrForDb d name' \<longleftrightarrow> name = name'"
proof
  assume "ConnStrForDb d name = ConnStrForDb d name'"
  then have "conn_read (ConnStrForDb d name) = conn_read (ConnStrForDb d name')" by simp
  then show "name = name'"
    unfolding conn_read_ConnStrForDb using assms by (auto split: if_splits)
qed simp

theorem ConnStrForDb_inj_witness:
  "ConnStrForDb \<lparr>dbHost = ''h'', dbUser = ''u'', dbName = ''a'', dbSSLMode = ''disable'', dbSSLCert = [],
     dbSSLKey = [], dbSSLRootCert = [], dbPort = 5432\<rparr> ''a?x'' \<noteq>
   ConnStrForDb \<lparr>dbHost = ''h'', dbUser = ''u'', dbName = ''a'', dbSSLMode = ''disable'', dbSSLCert = [],
     dbSSLKey = [], dbSSLRootCert = [], dbPort = 5432\<rparr> ''a''"
  by (subst ConnStrForDb_inj) simp_all

text \<open>A database name that starts with a slash is confused with the name without it: both have the same
  connection string.\<close>

theorem ConnStrForDb_leading_slash:
  assumes "name \<noteq> []" "hd name \<noteq> CHR ''/''" "name \<noteq> ''*''"
  shows "ConnStrForDb d (CHR ''/'' # name) = ConnStrForDb d name"
proof -
  have "conn_path (CHR ''/'' # name) = conn_path name"
    using assms escape_path_hd [of name]
    by (simp add: conn_path_def shouldEscape_def is_alnum_def byte_classes reserved_def)
  then show ?thesis
    by (simp add: ConnStrForDb_eq)
qed

theorem ConnStrForDb_leading_slash_witness:
  "ConnStrForDb \<lparr>dbHost = ''h'', dbUser = ''u'', dbName = ''a'', dbSSLMode = ''disable'', dbSSLCert = [],
     dbSSLKey = [], dbSSLRootCert = [], dbPort = 5432\<rparr> ''/app'' =
   ConnStrForDb \<lparr>dbHost = ''h'', dbUser = ''u'', dbName = ''a'', dbSSLMode = ''disable'', dbSSLCert = [],
     dbSSLKey = [], dbSSLRootCert = [], dbPort = 5432\<rparr> ''app''"
  by (rule ConnStrForDb_leading_slash) simp_all

text \<open>C34: an SSL mode other than \<open>disable\<close>, \<open>verify-ca\<close> and \<open>verify-full\<close> is accepted by the validation but
  is not written into the connection string: \<open>require\<close>, for example, gives the same connection
  string as no mode at all, so the driver's default mode applies.\<close>

theorem other_ssl_modes_dropped:
  assumes "mode \<notin> {''disable'', ''verify-ca'', ''verify-full''}"
  shows "isValidSSLSettings stat mode c k r = None \<and>
    ConnStrForDb (d\<lparr>dbSSLMode := mode\<rparr>) name = ConnStrForDb (d\<lparr>dbSSLMode := []\<rparr>) name \<and>
    snd (snd (snd (conn_read (ConnStrForDb (d\<lparr>dbSSLMode := mode\<rparr>) name)))) = []"
proof -
  have "Values_Encode (ssl_query (d\<lparr>dbSSLMode := m\<rparr>)) = []"
    if "m \<notin> {''disable'', ''verify-ca'', ''verify-full''}" for m
    using that by (simp add: Values_Encode_ssl)
  with assms show ?thesis
    unfolding conn_read_ConnStrForDb
    by (auto simp: isValidSSLSettings_def ConnStrForDb_eq simp del: escape.simps)
qed

theorem other_ssl_modes_dropped_witness:
  "isValidSSLSettings (\<lambda>_. StatOk) ''require'' [] [] [] = None \<and>
   ConnStrForDb \<lparr>dbHost = ''h'', dbUser = ''u'', dbName = ''a'', dbSSLMode = ''require'', dbSSLCert = [],
     dbSSLKey = [], dbSSLRootCert = [], dbPort = 5432\<rparr> ''a'' =
   ConnStrForDb \<lparr>dbHost = ''h'', dbUser = ''u'', dbName = ''a'', dbSSLMode = [], dbSSLCert = [],
     dbSSLKey = [], dbSSLRootCert = [], dbPort = 5432\<rparr> ''a''"
  using other_ssl_modes_dropped [of "''require''" "\<lambda>_. StatOk" "[]" "[]" "[]"
      "\<lparr>dbHost = ''h'', dbUser = ''u'', dbName = ''a'', dbSSLMode = [], dbSSLCert = [], dbSSLKey = [],
        dbSSLRootCert = [], dbPort = 5432\<rparr>" "''a''"]
  by simp

text \<open>The connection strings of the configuration tests.\<close>

definition test_credentials :: DbCredentials where
  "test_credentials = \<lparr>dbHost = ''localhost'', dbUser = ''testuser'', dbName = ''testdb'',
     dbSSLMode = ''verify-full'', dbSSLCert = ''/path/to/cert.crt'', dbSSLKey = ''/path/to/key.key'',
     dbSSLRootCert = ''/path/to/ca.crt'', dbPort = 5432\<rparr>"

lemma ConnStr_test_ssl:
  "ConnStr test_credentials = ''postgres://testuser@localhost:5432/testdb?sslcert=%2Fpath%2Fto%2Fcert.crt'' @
     ''&sslkey=%2Fpath%2Fto%2Fkey.key&sslmode=verify-full&sslrootcert=%2Fpath%2Fto%2Fca.crt''"
  by (simp add: ConnStr_def ConnStrForDb_eq Values_Encode_ssl test_credentials_def conn_path_def
      show_int_def show_nat.simps shouldEscape_def is_alnum_def byte_classes reserved_def
      host_punctuation_def upperhex_def char_of_eq_iff)

lemma ConnStr_test_disable:
  "ConnStr (test_credentials\<lparr>dbSSLMode := ''disable''\<rparr>) =
     ''postgres://testuser@localhost:5432/testdb?sslmode=disable''"
  by (simp add: ConnStr_def ConnStrForDb_eq Values_Encode_ssl test_credentials_def conn_path_def
      show_int_def show_nat.simps shouldEscape_def is_alnum_def byte_classes reserved_def
      host_punctuation_def char_of_eq_iff)

end
