(* ===== verification/Extractor_Main.thy ===== *)
theory Extractor_Main
  imports Extractor_Server Extractor_Config
begin

text \<open>
  \<open>cmd/extractor\<close>: the start and the shutdown of the service, in both builds (\<open>prod.go\<close> and \<open>dev.go\<close>). What
  the program asks of the world is the parameter \<open>world\<close>: the outcome of listening, of \<open>os.Stat\<close>, of the
  driver's calls (\<open>Ping\<close> included) and what ends the select (a signal, or the return of \<open>Serve\<close>). The
  result is the list of the actions in order and the exit status of the process. \<open>log.Fatalf\<close> and
  \<open>os.Exit\<close> end the process at once.
\<close>

section \<open>Definitions\<close>

datatype stop = Signal | Served "go_error option"

record 'raw world =
  w_Listen :: "string \<Rightarrow> go_error option"
  w_Stat :: "string \<Rightarrow> stat_result"
  w_pgx :: "'raw pgx"
  w_Ping :: "string \<Rightarrow> go_error option"
  w_stop :: stop

datatype action =
    FlagError go_error | Usage
  | LogFatal go_error | LogInfo string | LogError string go_error
  | Listening string | PoolOpened string | ReflectionRegistered | Serving Server | GracefulStop
  | PoolClosed string

text \<open>The levels are ordered as their numbers in \<open>log/slog\<close>.\<close>

fun level_value :: "Level \<Rightarrow> int" where
  "level_value LevelDebug = - 4"
| "level_value LevelInfo = 0"
| "level_value LevelWarn = 4"
| "level_value LevelError = 8"

lemma level_value_inj: "level_value a = level_value b \<longleftrightarrow> a = b"
  by (cases a; cases b) auto

instantiation Level :: linorder
begin

definition less_eq_Level :: "Level \<Rightarrow> Level \<Rightarrow> bool" where
  "less_eq_Level a b \<longleftrightarrow> level_value a \<le> level_value b"

definition less_Level :: "Level \<Rightarrow> Level \<Rightarrow> bool" where
  "less_Level a b \<longleftrightarrow> level_value a < level_value b"

instance
  by standard (auto simp: less_eq_Level_def less_Level_def level_value_inj)

end

datatype log_handler = JSONHandler | TextHandler

record Logger =
  lg_handler :: log_handler
  lg_level :: Level

text \<open>A logger writes a message unless its level is above that of the message.\<close>

definition log_at :: "Level \<Rightarrow> Logger \<Rightarrow> action \<Rightarrow> action list \<times> 'a \<Rightarrow> action list \<times> 'a" where
  "log_at level logger a m = (if lg_level logger \<le> level then emit a m else m)"

definition logger_Info :: "Logger \<Rightarrow> string \<Rightarrow> action list \<times> 'a \<Rightarrow> action list \<times> 'a" where
  "logger_Info logger msg = log_at LevelInfo logger (LogInfo msg)"

definition logger_Error :: "Logger \<Rightarrow> string \<Rightarrow> go_error \<Rightarrow> action list \<times> 'a \<Rightarrow> action list \<times> 'a" where
  "logger_Error logger msg err = log_at LevelError logger (LogError msg err)"

text \<open>The two builds: \<open>prod.go\<close>, and \<open>dev.go\<close> under the build tag \<open>dev\<close>.\<close>

definition initializeLogger_prod :: "Config \<Rightarrow> Logger go" where
  "initializeLogger_prod c =
     (case LogLevel c of
        Inl err \<Rightarrow> Inl err
      | Inr level \<Rightarrow> Inr \<lparr>lg_handler = JSONHandler, lg_level = level\<rparr>)"

definition initializeLogger_dev :: "Config \<Rightarrow> Logger go" where
  "initializeLogger_dev c =
     (case LogLevel c of
        Inl err \<Rightarrow> Inl err
      | Inr level \<Rightarrow> Inr \<lparr>lg_handler = TextHandler, lg_level = level\<rparr>)"

definition registerDev_prod :: "action list \<times> 'a \<Rightarrow> action list \<times> 'a" where
  "registerDev_prod m = m"

definition registerDev_dev :: "action list \<times> 'a \<Rightarrow> action list \<times> 'a" where
  "registerDev_dev m = emit ReflectionRegistered m"

datatype build = ProdBuild | DevBuild

definition initializeLogger :: "build \<Rightarrow> Config \<Rightarrow> Logger go" where
  "initializeLogger b = (case b of ProdBuild \<Rightarrow> initializeLogger_prod | DevBuild \<Rightarrow> initializeLogger_dev)"

definition registerDev :: "build \<Rightarrow> action list \<times> 'a \<Rightarrow> action list \<times> 'a" where
  "registerDev b = (case b of ProdBuild \<Rightarrow> registerDev_prod | DevBuild \<Rightarrow> registerDev_dev)"

text \<open>An error that ends the program: it is logged, then \<open>os.Exit(1)\<close>.\<close>

definition fail :: "Logger \<Rightarrow> string \<Rightarrow> go_error \<Rightarrow> action list \<times> nat" where
  "fail logger msg err = logger_Error logger msg err (pure 1)"

text \<open>From the select to the end of \<open>main\<close>.\<close>

definition shutdown :: "Logger \<Rightarrow> stop \<Rightarrow> string \<Rightarrow> action list \<times> nat" where
  "shutdown logger st pool =
     (let rest = emit (PoolClosed pool) (logger_Info logger ''Shutdown complete'' (pure 0)) in
      case st of
        Signal \<Rightarrow> logger_Info logger ''Shutdown signal received, stopping gracefully'' (emit GracefulStop rest)
      | Served (Some err) \<Rightarrow> logger_Error logger ''server stopped with error'' err rest
      | Served None \<Rightarrow> rest)"

text \<open>The body of \<open>main\<close> once the configuration and the logger are made.\<close>

definition run_service :: "build \<Rightarrow> 'raw world \<Rightarrow> Config \<Rightarrow> Logger \<Rightarrow> action list \<times> nat" where
  "run_service b w config logger =
     logger_Info logger ''PostgreSQL Inventory Extractor''
     (case w_Listen w (ListenAddr config) of
        Some err \<Rightarrow> fail logger ''failed to listen'' err
      | None \<Rightarrow> emit (Listening (ListenAddr config))
     (case NewCredentials (w_Stat w) config of
        Inl err \<Rightarrow> fail logger ''failed to parse db credentials'' err
      | Inr dbCredentials \<Rightarrow>
     (let pool = ConnStr dbCredentials in
      case pgx_New (w_pgx w) pool of
        Some err \<Rightarrow> fail logger ''failed to create pool to database'' err
      | None \<Rightarrow> emit (PoolOpened pool)
     (case w_Ping w pool of
        Some err \<Rightarrow> fail logger ''failed to connect to database'' err
      | None \<Rightarrow>
     (case NewStore (w_pgx w) pool (ConnStrForDb (DbCredentials_of config)) of
        Inl err \<Rightarrow> fail logger ''failed to initialize store'' err
      | Inr st \<Rightarrow>
        registerDev b (logger_Info logger ''Extractor service listening'' (emit (Serving (NewServer st))
          (shutdown logger (w_stop w) pool))))))))"

definition main :: "build \<Rightarrow> 'raw world \<Rightarrow> string list \<Rightarrow> action list \<times> nat" where
  "main b w args =
     (case NewConfig args of
        Inl ErrHelp \<Rightarrow> emit Usage (pure 0)
      | Inl (FlagFail err) \<Rightarrow> emit (FlagError err) (emit Usage (pure 2))
      | Inr config \<Rightarrow>
     (case initializeLogger b config of
        Inl err \<Rightarrow> emit (LogFatal err) (pure 1)
      | Inr logger \<Rightarrow> run_service b w config logger))"

section \<open>Properties\<close>

lemma NewCredentials_Inr: "NewCredentials stat c = Inr d \<Longrightarrow> d = DbCredentials_of c"
  by (auto simp: NewCredentials_def Let_def split: option.splits)

lemma log_simps [simp]:
  "snd (logger_Info lg msg m) = snd m" "snd (logger_Error lg msg err m) = snd m"
  "fst (logger_Error lg msg err m) = LogError msg err # fst m"
  "set (fst (logger_Info lg msg m)) - {LogInfo msg} = set (fst m) - {LogInfo msg}"
  "snd (registerDev b m) = snd m"
  by (cases "lg_level lg"; cases b;
      auto simp: logger_Info_def logger_Error_def log_at_def less_eq_Level_def registerDev_def
        registerDev_prod_def registerDev_dev_def)+

lemma logger_Info_mem [simp]:
  "(\<And>msg. a \<noteq> LogInfo msg) \<Longrightarrow> a \<in> set (fst (logger_Info lg msg m)) \<longleftrightarrow> a \<in> set (fst m)"
  by (simp add: logger_Info_def log_at_def)

lemma registerDev_mem [simp]:
  "a \<noteq> ReflectionRegistered \<Longrightarrow> a \<in> set (fst (registerDev b m)) \<longleftrightarrow> a \<in> set (fst m)"
  by (cases b) (simp_all add: registerDev_def registerDev_prod_def registerDev_dev_def)

lemma initializeLogger_ok_iff: "(\<exists>lg. initializeLogger b c = Inr lg) \<longleftrightarrow> (\<exists>level. LogLevel c = Inr level)"
  by (cases b) (auto simp: initializeLogger_def initializeLogger_prod_def initializeLogger_dev_def split: sum.splits)

lemmas run_simps = run_service_def fail_def shutdown_def Let_def

lemma run_service_Serving_iff:
  "Serving sv \<in> set (fst (run_service b w config lg)) \<longleftrightarrow>
    w_Listen w (ListenAddr config) = None \<and>
    NewCredentials (w_Stat w) config = Inr (DbCredentials_of config) \<and>
    pgx_New (w_pgx w) (ConnStr (DbCredentials_of config)) = None \<and>
    w_Ping w (ConnStr (DbCredentials_of config)) = None \<and>
    NewStore (w_pgx w) (ConnStr (DbCredentials_of config)) (ConnStrForDb (DbCredentials_of config)) =
      Inr (sv_store sv)"
  by (cases sv) (auto simp: run_simps NewServer_def dest: NewCredentials_Inr split: sum.splits option.splits stop.splits)

lemma main_Serving_iff:
  "Serving sv \<in> set (fst (main b w args)) \<longleftrightarrow>
    (\<exists>config level. NewConfig args = Inr config \<and> LogLevel config = Inr level \<and>
      w_Listen w (ListenAddr config) = None \<and>
      NewCredentials (w_Stat w) config = Inr (DbCredentials_of config) \<and>
      pgx_New (w_pgx w) (ConnStr (DbCredentials_of config)) = None \<and>
      w_Ping w (ConnStr (DbCredentials_of config)) = None \<and>
      NewStore (w_pgx w) (ConnStr (DbCredentials_of config)) (ConnStrForDb (DbCredentials_of config)) =
        Inr (sv_store sv))"
proof (cases "NewConfig args")
  case (Inr config)
  show ?thesis
  proof (cases "initializeLogger b config")
    case (Inl err)
    then have "\<nexists>level. LogLevel config = Inr level"
      unfolding initializeLogger_ok_iff [of b, symmetric] by simp
    with Inl Inr show ?thesis by (simp add: main_def)
  next
    case lg: (Inr lg)
    then obtain level where "LogLevel config = Inr level"
      using initializeLogger_ok_iff [of b config] by auto
    with lg Inr show ?thesis by (simp add: main_def run_service_Serving_iff)
  qed
qed (simp add: main_def split: flag_error.splits)

text \<open>C28: the service starts exactly when every step of the start succeeds: the command line and the log level
  are valid, the address can be listened on, the credentials are accepted, the pool can be created and
  pinged, and the store can be loaded. It then serves a store that uses the pool of the configured
  database and builds the connection strings of the workers from the same credentials. This holds in
  both builds.\<close>

theorem main_serves_iff:
  "Serving sv \<in> set (fst (main b w args)) \<longleftrightarrow>
    (\<exists>config level. NewConfig args = Inr config \<and> LogLevel config = Inr level \<and>
      w_Listen w (ListenAddr config) = None \<and>
      NewCredentials (w_Stat w) config = Inr (DbCredentials_of config) \<and>
      pgx_New (w_pgx w) (ConnStr (DbCredentials_of config)) = None \<and>
      w_Ping w (ConnStr (DbCredentials_of config)) = None \<and>
      NewStore (w_pgx w) (ConnStr (DbCredentials_of config)) (ConnStrForDb (DbCredentials_of config)) =
        Inr (sv_store sv))"
  by (rule main_Serving_iff)

lemma shutdown_end: "PoolClosed pool \<in> set (fst (shutdown lg st pool)) \<and> snd (shutdown lg st pool) = 0"
  by (auto simp: shutdown_def Let_def split: stop.splits option.splits)

lemma run_service_end:
  "snd (run_service b w config lg) = (if \<exists>sv. Serving sv \<in> set (fst (run_service b w config lg)) then 0 else 1)"
  by (auto simp: run_simps split: sum.splits option.splits stop.splits)

lemma trace_suffix:
  "\<exists>tr. fst m = tr @ s \<Longrightarrow> \<exists>tr. fst (emit a m) = tr @ s"
  "\<exists>tr. fst m = tr @ s \<Longrightarrow> \<exists>tr. fst (logger_Info lg msg m) = tr @ s"
  "\<exists>tr. fst m = tr @ s \<Longrightarrow> \<exists>tr. fst (registerDev b m) = tr @ s"
  by (auto simp: logger_Info_def log_at_def registerDev_def registerDev_prod_def registerDev_dev_def
      split: build.splits)

lemma run_service_trace:
  assumes "Serving sv \<in> set (fst (run_service b w config lg))"
  shows "\<exists>tr. fst (run_service b w config lg) =
    tr @ Serving sv # fst (shutdown lg (w_stop w) (ConnStr (DbCredentials_of config)))"
proof -
  let ?pool = "ConnStr (DbCredentials_of config)"
  let ?m = "emit (Serving sv) (shutdown lg (w_stop w) ?pool)"
  have "NewServer (sv_store sv) = sv"
    by (cases sv) (simp add: NewServer_def)
  then have "fst (run_service b w config lg) = fst (logger_Info lg ''PostgreSQL Inventory Extractor''
      (emit (Listening (ListenAddr config)) (emit (PoolOpened ?pool)
        (registerDev b (logger_Info lg ''Extractor service listening'' ?m)))))"
    using assms unfolding run_service_Serving_iff by (auto simp: run_service_def Let_def)
  then show ?thesis
    by (simp only:) (intro trace_suffix exI [of _ "[]"]; simp)
qed

text \<open>C29: the end of the process. Status 2 is an invalid command line, 0 without serving a request for help,
  and 1 every other start that failed; once the service served, the default pool is closed before the
  process ends, after a graceful stop if a signal arrived, and the status is 0, also when \<open>Serve\<close>
  itself failed.\<close>

theorem main_exit_status:
  "snd (main b w args) =
     (case NewConfig args of
        Inl ErrHelp \<Rightarrow> 0
      | Inl (FlagFail err) \<Rightarrow> 2
      | Inr config \<Rightarrow> if \<exists>sv. Serving sv \<in> set (fst (main b w args)) then 0 else 1) \<and>
   (Serving sv \<in> set (fst (main b w args)) \<longrightarrow>
    (\<exists>config lg tr. NewConfig args = Inr config \<and> initializeLogger b config = Inr lg \<and>
       fst (main b w args) = tr @ Serving sv # fst (shutdown lg (w_stop w) (ConnStr (DbCredentials_of config))) \<and>
       PoolClosed (ConnStr (DbCredentials_of config)) \<in> set (fst (main b w args))))"
proof
  show "snd (main b w args) =
     (case NewConfig args of
        Inl ErrHelp \<Rightarrow> 0
      | Inl (FlagFail err) \<Rightarrow> 2
      | Inr config \<Rightarrow> if \<exists>sv. Serving sv \<in> set (fst (main b w args)) then 0 else 1)"
    by (auto simp: main_def run_service_end split: sum.splits flag_error.splits)
  show "Serving sv \<in> set (fst (main b w args)) \<longrightarrow>
    (\<exists>config lg tr. NewConfig args = Inr config \<and> initializeLogger b config = Inr lg \<and>
       fst (main b w args) = tr @ Serving sv # fst (shutdown lg (w_stop w) (ConnStr (DbCredentials_of config))) \<and>
       PoolClosed (ConnStr (DbCredentials_of config)) \<in> set (fst (main b w args)))"
  proof
    assume sv: "Serving sv \<in> set (fst (main b w args))"
    then obtain config lg where c: "NewConfig args = Inr config" "initializeLogger b config = Inr lg"
      by (auto simp: main_def split: sum.splits flag_error.splits)
    then have main: "main b w args = run_service b w config lg"
      by (simp add: main_def)
    with sv obtain tr where "fst (main b w args) =
        tr @ Serving sv # fst (shutdown lg (w_stop w) (ConnStr (DbCredentials_of config)))"
      using run_service_trace by metis
    with c show "\<exists>config lg tr. NewConfig args = Inr config \<and> initializeLogger b config = Inr lg \<and>
       fst (main b w args) = tr @ Serving sv # fst (shutdown lg (w_stop w) (ConnStr (DbCredentials_of config))) \<and>
       PoolClosed (ConnStr (DbCredentials_of config)) \<in> set (fst (main b w args))"
      using shutdown_end by (intro exI [of _ config] exI [of _ lg] exI [of _ tr]) auto
  qed
qed

text \<open>A world in which everything works until the listener breaks.\<close>

definition demo_settings :: "setting list" where
  "demo_settings =
     [\<lparr>s_double = False, s_joined = True, s_name = ''db-sslmode'', s_value = ''disable''\<rparr>,
      \<lparr>s_double = True, s_joined = False, s_name = ''db-user'', s_value = ''testuser''\<rparr>]"

definition demo_args :: "string list" where
  "demo_args = [''-db-sslmode=disable'', ''--db-user'', ''testuser'']"

definition demo_config :: Config where
  "demo_config = \<lparr>ListenAddr = '':50051'', logLevel = ''info'',
     DbCredentials_of = \<lparr>dbHost = ''localhost'', dbUser = ''testuser'', dbName = ''postgres'',
       dbSSLMode = ''disable'', dbSSLCert = [], dbSSLKey = [], dbSSLRootCert = [], dbPort = 5432\<rparr>\<rparr>"

definition demo_world :: "(u32 \<times> string) world" where
  "demo_world = \<lparr>w_Listen = (\<lambda>a. None), w_Stat = (\<lambda>f. StatOk), w_pgx = demo_pgx, w_Ping = (\<lambda>p. None),
     w_stop = Served (Some (ErrorString ''use of closed network connection''))\<rparr>"

lemma demo_args_config: "NewConfig demo_args = Inr demo_config"
proof -
  have "demo_args = concat (map write_setting demo_settings) @ []" "ends_flags [] []"
    "settings_ok demo_settings" "demo_config = settings_config demo_settings"
    by (simp_all add: demo_args_def demo_settings_def write_setting_def ends_flags_def settings_ok_def
        demo_config_def settings_config_def last_string_def last_int_def)
  then show ?thesis
    unfolding NewConfig_iff by blast
qed

lemma demo_stanza: "isValidStanzaName ''main''"
  by (simp add: isValidStanzaName_def MatchString_def stanzaNamePattern_def is_letter_def is_stanza_char_def
      is_lower_def rep_max_def)

lemma demo_serves: "\<exists>sv. Serving sv \<in> set (fst (main ProdBuild demo_world demo_args))"
proof -
  let ?pool = "ConnStr (DbCredentials_of demo_config)"
  obtain st where st: "NewStore demo_pgx ?pool (ConnStrForDb (DbCredentials_of demo_config)) = Inr st"
    by (simp add: NewStore_def demo_pgx_def demo_stanza)
  have "LogLevel demo_config = Inr LevelInfo"
    by (simp add: demo_config_def LogLevel_def ToLower.simps lower_byte_def is_upper_def)
  moreover have "NewCredentials (w_Stat demo_world) demo_config = Inr (DbCredentials_of demo_config)"
    by (simp add: demo_config_def NewCredentials_def isValidSSLSettings_def)
  ultimately have "Serving (NewServer st) \<in> set (fst (main ProdBuild demo_world demo_args))"
    unfolding main_Serving_iff demo_args_config using st
    by (simp add: demo_world_def NewServer_def) (simp add: demo_pgx_def)
  then show ?thesis ..
qed

theorem main_exit_status_witness:
  "snd (main ProdBuild demo_world demo_args) = 0 \<and>
   LogError ''server stopped with error'' (ErrorString ''use of closed network connection'')
     \<in> set (fst (main ProdBuild demo_world demo_args))"
proof -
  obtain sv where sv: "Serving sv \<in> set (fst (main ProdBuild demo_world demo_args))"
    using demo_serves by blast
  note spec = main_exit_status [of ProdBuild demo_world demo_args sv]
  have "snd (main ProdBuild demo_world demo_args) = 0"
    using conjunct1 [OF spec] demo_serves by (simp add: demo_args_config)
  moreover obtain config :: Config and lg :: Logger and tr where "fst (main ProdBuild demo_world demo_args) =
      tr @ Serving sv # fst (shutdown lg (w_stop demo_world) (ConnStr (DbCredentials_of config)))"
    using conjunct2 [OF spec, rule_format, OF sv] by blast
  ultimately show ?thesis
    by (simp add: shutdown_def demo_world_def Let_def)
qed

end
