(* ===== verification/Pg_Catalog.thy ===== *)
theory Pg_Catalog
  imports Pg_Store "HOL-Library.List_Lexorder" "HOL-Library.Char_ord" "HOL-Library.Product_Lexorder"
begin

text \<open>
  The SQL statements of the store as functions of the system catalog. A \<open>catalog\<close> is a snapshot of the
  catalog tables of one database, restricted to the columns the statements read, together with the
  functions of the server that they call (\<open>pg_get_userbyid\<close>, \<open>format_type\<close>, the size functions and so
  on), which are parameters. The rows of a table stand in the order in which the server visits them; a
  statement without ORDER BY returns them in that order.

  A table expression is a list: a join is a list comprehension over its tables with the join
  condition as guard, WHERE is a guard, GROUP BY is \<open>group_by\<close>, LEFT JOIN is \<open>left_join\<close>, ORDER BY is
  \<^const>\<open>sort_key\<close>. Names (type \<open>name\<close>) are compared byte by byte, as the C collation does.
\<close>

section \<open>The catalog\<close>

type_synonym oid = u32

record pg_database =
  dat_oid :: oid
  datname :: string
  datallowconn :: bool
  datistemplate :: bool

record pg_namespace =
  nsp_oid :: oid
  nspname :: string
  nspowner :: oid

record pg_class =
  rel_oid :: oid
  relname :: string
  relnamespace :: oid
  relowner :: oid
  relkind :: char
  relam :: oid
  reltoastrelid :: oid
  reltuples :: int          \<comment> \<open>after the cast to bigint\<close>

record pg_proc =
  pro_oid :: oid
  proname :: string
  pronamespace :: oid
  proowner :: oid
  prolang :: oid
  prorettype :: oid

record pg_language =
  lan_oid :: oid
  lanname :: string

record pg_sequence =
  seqrelid :: oid
  seqtypid :: oid

record pg_type =
  typ_oid :: oid
  typname :: string

record pg_extension =
  ext_oid :: oid
  extname :: string
  extversion :: string
  extnamespace :: oid

record pg_attribute =
  attrelid :: oid
  attnum :: int
  attname :: string
  atttypid :: oid
  atttypmod :: int
  attnotnull :: bool
  attinhcount :: int
  attisdropped :: bool

record pg_index =
  indexrelid :: oid
  indrelid :: oid
  indkey :: "int list"
  indisunique :: bool
  indisprimary :: bool
  indisexclusion :: bool
  indisvalid :: bool
  indpred :: "string option"

record pg_am =
  am_oid :: oid
  amname :: string

record pg_constraint =
  con_oid :: oid
  conname :: string
  contype :: char
  conrelid :: oid
  confrelid :: oid
  conkey :: "int list"      \<comment> \<open>NULL is the empty list: unnest has no rows for both\<close>
  confkey :: "int list"

record pg_inherits =
  inhrelid :: oid
  inhparent :: oid
  inhseqno :: int

record catalog =
  databases :: "pg_database list"
  namespaces :: "pg_namespace list"
  classes :: "pg_class list"
  procs :: "pg_proc list"
  languages :: "pg_language list"
  sequences :: "pg_sequence list"
  pgtypes :: "pg_type list"
  extensions :: "pg_extension list"
  available_extensions :: "(string \<times> string option) list"   \<comment> \<open>the default version may be NULL\<close>
  attributes :: "pg_attribute list"
  indexes :: "pg_index list"
  access_methods :: "pg_am list"
  constraints :: "pg_constraint list"
  inherits :: "pg_inherits list"
  cluster_config :: "(string \<times> string) list"
  pg_get_userbyid :: "oid \<Rightarrow> string"
  format_type :: "oid \<Rightarrow> int option \<Rightarrow> string"
  pg_get_function_identity_arguments :: "oid \<Rightarrow> string"
  obj_description :: "oid \<Rightarrow> string option"
  pg_relation_size :: "oid \<Rightarrow> int option"
  pg_total_relation_size :: "oid \<Rightarrow> int option"
  pg_get_indexdef :: "oid \<Rightarrow> string"
  pg_get_constraintdef :: "oid \<Rightarrow> string"
  regclass_text :: "oid \<Rightarrow> string"

section \<open>LIKE\<close>

text \<open>The next character of a text in UTF-8: its first byte and the continuation bytes that follow.\<close>

definition is_continuation :: "char \<Rightarrow> bool" where
  "is_continuation c \<longleftrightarrow> 128 \<le> (of_char c :: nat) \<and> (of_char c :: nat) < 192"

definition next_char :: "string \<Rightarrow> string" where
  "next_char s = dropWhile is_continuation (tl s)"

lemma length_next_char: "length (next_char (c # s)) \<le> length s"
  by (simp add: next_char_def length_dropWhile_le)

text \<open>The percent sign matches any text, the underscore any one character, and a backslash quotes the
  character after it.\<close>

function like :: "string \<Rightarrow> string \<Rightarrow> bool" where
  "like [] t = (t = [])"
| "like (c # p) [] = (c = CHR ''%'' \<and> like p [])"
| "like (c # p) (x # t) =
     (if c = CHR ''%'' then like p (x # t) \<or> like (c # p) (next_char (x # t))
      else if c = CHR ''_'' then like p (next_char (x # t))
      else if c = CHR 0x5C \<and> p \<noteq> [] then x = hd p \<and> like (tl p) t
      else x = c \<and> like p t)"
  by pat_completeness auto
termination
  by (relation "measure (\<lambda>(p, t). length p + length t)") (auto simp: less_Suc_eq_le le_SucI length_next_char)

section \<open>The statements of store.go\<close>

definition queryDatabases :: "catalog \<Rightarrow> (string \<times> oid) list" where
  "queryDatabases cat =
     [(datname d, dat_oid d). d \<leftarrow> databases cat, datallowconn d \<and> \<not> datistemplate d]"

definition queryClusterConfig :: "string \<Rightarrow> catalog \<Rightarrow> string list" where
  "queryClusterConfig k cat = [value. (key, value) \<leftarrow> cluster_config cat, key = k]"

text \<open>The filter on the schema that the lists of schemas, functions and sequences share.\<close>

definition listed_schema :: "string \<Rightarrow> bool" where
  "listed_schema name \<longleftrightarrow> \<not> like ''pg_%'' name \<and> name \<noteq> ''information_schema''"

definition queryFunctions ::
  "catalog \<Rightarrow> (oid \<times> string \<times> string \<times> string \<times> string \<times> string \<times> string) list" where
  "queryFunctions cat =
     [(pro_oid p, proname p, nspname n, pg_get_userbyid cat (proowner p), lanname l,
       format_type cat (prorettype p) None, pg_get_function_identity_arguments cat (pro_oid p)).
      p \<leftarrow> procs cat,
      n \<leftarrow> namespaces cat, pronamespace p = nsp_oid n,
      l \<leftarrow> languages cat, prolang p = lan_oid l,
      listed_schema (nspname n)]"

definition querySequences :: "catalog \<Rightarrow> (oid \<times> string \<times> string \<times> string \<times> string) list" where
  "querySequences cat =
     sort_key (\<lambda>(oid, name, schema, own, data_type). (schema, name))
     [(rel_oid c, relname c, nspname n, pg_get_userbyid cat (relowner c), typname t).
      c \<leftarrow> classes cat,
      n \<leftarrow> namespaces cat, relnamespace c = nsp_oid n,
      s \<leftarrow> sequences cat, seqrelid s = rel_oid c,
      t \<leftarrow> pgtypes cat, typ_oid t = seqtypid s,
      relkind c = CHR ''S'' \<and> listed_schema (nspname n)]"

definition queryAvailableExtensions :: "catalog \<Rightarrow> (string \<times> string option) list" where
  "queryAvailableExtensions cat = available_extensions cat"

definition queryListInstalledExtensions :: "catalog \<Rightarrow> (oid \<times> string \<times> string \<times> string) list" where
  "queryListInstalledExtensions cat =
     sort_key (\<lambda>(oid, name, version, schema). name)
     [(ext_oid e, extname e, extversion e, nspname n).
      e \<leftarrow> extensions cat,
      n \<leftarrow> namespaces cat, extnamespace e = nsp_oid n]"

definition queryListSchemas :: "catalog \<Rightarrow> (oid \<times> string \<times> string) list" where
  "queryListSchemas cat =
     [(nsp_oid n, nspname n, pg_get_userbyid cat (nspowner n)).
      n \<leftarrow> namespaces cat, listed_schema (nspname n)]"

section \<open>What the filter lets through\<close>

lemma like_percent: "like [CHR 0x25] t"
proof (induction t rule: length_induct)
  case (1 t)
  then show ?case
    by (cases t) (auto simp: le_imp_less_Suc length_next_char)
qed

lemma like_pg: "like ''pg_%'' name \<longleftrightarrow> (\<exists>c rest. name = ''pg'' @ c # rest)"
proof -
  have "like ''_%'' t \<longleftrightarrow> t \<noteq> []" for t
    using like_percent by (cases t) simp_all
  moreover have "like ''pg_%'' name \<longleftrightarrow> (\<exists>t. name = ''pg'' @ t \<and> like ''_%'' t)"
    by (cases name; cases "tl name") (auto simp del: like.simps(3) simp: like.simps(3) [of "CHR ''p''"] like.simps(3) [of "CHR ''g''"])
  ultimately show ?thesis
    by (auto simp: neq_Nil_conv)
qed

lemma listed_schema_iff:
  "listed_schema name \<longleftrightarrow> name \<noteq> ''information_schema'' \<and> (name = ''pg'' \<or> take 2 name \<noteq> ''pg'')"
proof -
  have "(\<exists>c rest. name = ''pg'' @ c # rest) \<longleftrightarrow> name \<noteq> ''pg'' \<and> take 2 name = ''pg''"
    by (cases name; cases "tl name"; cases "tl (tl name)") auto
  then show ?thesis
    unfolding listed_schema_def like_pg by blast
qed

lemma map_Inr_inject: "map Inr vs = map Inr ws \<longleftrightarrow> vs = ws"
  by (metis inj_Inr inj_map_eq_map)

lemma frame_rows_of:
  assumes "snd (with_database x s acq cm qm q (read_rows scan sm im mk d) d) = Inr ys"
    and "\<And>rows. pgx_Query x (st_connStrFor s d) q = Inr rows \<Longrightarrow> rw_err rows = None \<Longrightarrow>
      map scan (rw_rows rows) = map Inr vs"
  shows "ys = map mk vs"
proof -
  obtain rows ws where "pgx_Query x (st_connStrFor s d) q = Inr rows" "rw_err rows = None"
    "map scan (rw_rows rows) = map Inr ws" "ys = map mk ws"
    using assms(1) by (auto simp: with_database_Inr_iff read_rows_Inr_iff)
  with assms(2) show ?thesis
    by (simp add: map_Inr_inject)
qed

lemma forEachDatabase_rows:
  assumes "forEachDatabase sched dbs w = Inr ys" "is_schedule sched dbs"
    and "\<And>d rs. w d = Inr rs \<Longrightarrow> map f rs = g d"
  shows "mset (map f ys) = mset (concat (map (\<lambda>db. g (db_Name db)) dbs))"
proof -
  obtain xss where xss: "map (\<lambda>db. w (db_Name db)) (arrival sched dbs) = map Inr xss" "ys = concat xss"
    using assms(1) unfolding forEachDatabase_Inr_iff by blast
  have "map (map f) xss = map (\<lambda>db. g (db_Name db)) ds" if "map (\<lambda>db. w (db_Name db)) ds = map Inr xss" for ds xss
    using that
  proof (induction ds arbitrary: xss)
    case (Cons db ds)
    then show ?case using assms(3) by (cases xss) auto
  qed simp
  then have "map (map f) xss = map (\<lambda>db. g (db_Name db)) (arrival sched dbs)"
    using xss(1) .
  then have "map f ys = concat (map (\<lambda>db. g (db_Name db)) (arrival sched dbs))"
    by (simp only: xss(2) map_concat)
  then show ?thesis
    by (simp only:) (simp add: mset_concat mset_arrival [OF assms(2)] sum_mset_sum_list [symmetric])
qed

definition connectable :: "catalog \<Rightarrow> string list" where
  "connectable c = [datname d. d \<leftarrow> databases c, datallowconn d \<and> \<not> datistemplate d]"

section \<open>The contract of the driver\<close>

text \<open>
  What the program relies on when it reads the catalog: a query that ended without an error delivered
  the rows of the statement, and \<open>rows.Scan\<close> stores the columns of a row. \<open>cat p\<close> is the catalog of the
  database that the connection string \<open>p\<close> leads to. \<open>rows.Scan\<close> cannot store NULL in a Go string and
  returns an error; the default version of an available extension is the only column scanned into a
  string that the server documents as nullable.
\<close>

definition available_row :: "'raw pgx \<Rightarrow> 'raw \<Rightarrow> string \<times> string option \<Rightarrow> bool" where
  "available_row x r = (\<lambda>(name, version). case version of
     None \<Rightarrow> isl (pgx_ScanAvailable x r)
   | Some v \<Rightarrow> pgx_ScanAvailable x r = Inr (name, v))"

lemma available_scanned:
  assumes "list_all2 (available_row x) rs es" "map (pgx_ScanAvailable x) rs = map Inr vs"
  shows "es = map (\<lambda>(name, version). (name, Some version)) vs"
  using assms
proof (induction rs es arbitrary: vs rule: list_all2_induct)
  case (Cons r rs e es)
  then show ?case
    by (cases vs) (auto simp: available_row_def split: option.splits)
qed simp

locale catalog_driver =
  fixes x :: "'raw pgx" and cat :: "string \<Rightarrow> catalog"
  assumes scan_databases: "pgx_Query x p SqlDatabases = Inr rows \<Longrightarrow> rw_err rows = None \<Longrightarrow>
      map (pgx_ScanDatabase x) (rw_rows rows) = map Inr (queryDatabases (cat p))"
    and scan_available: "pgx_Query x p SqlAvailableExtensions = Inr rows \<Longrightarrow> rw_err rows = None \<Longrightarrow>
      list_all2 (available_row x) (rw_rows rows) (queryAvailableExtensions (cat p))"
    and scan_installed: "pgx_Query x p SqlInstalledExtensions = Inr rows \<Longrightarrow> rw_err rows = None \<Longrightarrow>
      map (pgx_ScanInstalled x) (rw_rows rows) = map Inr (queryListInstalledExtensions (cat p))"
    and scan_schemas: "pgx_Query x p SqlSchemas = Inr rows \<Longrightarrow> rw_err rows = None \<Longrightarrow>
      map (pgx_ScanSchema x) (rw_rows rows) = map Inr (queryListSchemas (cat p))"
    and scan_sequences: "pgx_Query x p SqlSequences = Inr rows \<Longrightarrow> rw_err rows = None \<Longrightarrow>
      map (pgx_ScanSequence x) (rw_rows rows) = map Inr (querySequences (cat p))"
    and scan_functions: "pgx_Query x p SqlFunctions = Inr rows \<Longrightarrow> rw_err rows = None \<Longrightarrow>
      map (pgx_ScanFunction x) (rw_rows rows) = map Inr (queryFunctions (cat p))"
    and text_stanza: "pgx_QueryText x p SqlStanza = Inr v \<Longrightarrow> v \<in> set (queryClusterConfig ''stanza'' (cat p))"
    and text_cluster: "pgx_QueryText x p SqlClusterName = Inr v \<Longrightarrow>
      v \<in> set (queryClusterConfig ''cluster_name'' (cat p))"
begin

lemma databases_rows:
  assumes "pgx_Query x (st_pool s) SqlDatabases = Inr rows" "rw_err rows = None"
  shows "snd (ListDatabases x s) =
    Inr (map (\<lambda>(name, oid). \<lparr>db_Name = name, db_Oid = oid\<rparr>) (queryDatabases (cat (st_pool s))))"
proof -
  have "scan_loop (pgx_ScanDatabase x) (\<lambda>err. err) (\<lambda>(name, oid). \<lparr>db_Name = name, db_Oid = oid\<rparr>)
      (rw_rows rows) [] = Inr (map (\<lambda>(name, oid). \<lparr>db_Name = name, db_Oid = oid\<rparr>) (queryDatabases (cat (st_pool s))))"
    unfolding scan_loop_Inr_iff scan_databases [OF assms] by auto
  then show ?thesis
    by (simp add: ListDatabases_def assms(1))
qed

lemma worker_rows:
  "snd (listSchemasForDatabase x s acq d) = Inr schemas \<Longrightarrow>
    schemas = map (\<lambda>(oid, name, own). \<lparr>sch_Database = d, sch_Name = name, sch_Owner = own, sch_Oid = oid\<rparr>)
      (queryListSchemas (cat (st_connStrFor s d)))"
  "snd (listSequencesForDatabase x s acq d) = Inr seqs \<Longrightarrow>
    seqs = map (\<lambda>(oid, name, schema, own, dataType). \<lparr>seq_Name = name, seq_Schema = schema, seq_Owner = own,
      seq_Database = d, seq_DataType = dataType, seq_Oid = oid\<rparr>) (querySequences (cat (st_connStrFor s d)))"
  "snd (listFunctionsForDatabase x s acq d) = Inr fns \<Longrightarrow>
    fns = map (\<lambda>(oid, name, schema, own, language, returnType, identityArguments).
      \<lparr>fn_Name = name, fn_Schema = schema, fn_Owner = own, fn_Database = d, fn_Language = language,
       fn_ReturnType = returnType, fn_IdentityArguments = identityArguments, fn_Oid = oid\<rparr>)
      (queryFunctions (cat (st_connStrFor s d)))"
  "snd (listInstalledExtensionsForDatabase x s acq d) = Inr exts \<Longrightarrow>
    exts = map (\<lambda>(oid, name, version, schema). \<lparr>ie_Name = name, ie_Version = version, ie_Schema = schema,
      ie_Database = d, ie_Oid = oid\<rparr>) (queryListInstalledExtensions (cat (st_connStrFor s d)))"
  unfolding listSchemasForDatabase_def listSequencesForDatabase_def listFunctionsForDatabase_def
    listInstalledExtensionsForDatabase_def
  by (erule frame_rows_of, erule (1) scan_schemas scan_sequences scan_functions scan_installed)+

lemma database_names:
  assumes "pgx_Query x (st_pool s) SqlDatabases = Inr rows" "rw_err rows = None"
    and "snd (ListDatabases x s) = Inr dbs"
  shows "map db_Name dbs = connectable (cat (st_pool s))"
proof -
  let ?dbs = "map (\<lambda>(name, oid). \<lparr>db_Name = name, db_Oid = oid\<rparr>) (queryDatabases (cat (st_pool s)))"
  have "map db_Name ?dbs = connectable (cat (st_pool s))"
    by (simp add: queryDatabases_def connectable_def map_concat o_def if_distrib cong: if_cong)
  then show ?thesis
    using assms(3) databases_rows [OF assms(1,2)] by (metis sum.inject(2))
qed

lemma aggregated_rows:
  assumes "pgx_Query x (st_pool s) SqlDatabases = Inr rows" "rw_err rows = None"
    and "is_schedule sched (connectable (cat (st_pool s)))"
    and "snd (ListDatabases x s) = Inr dbs" "forEachDatabase sched dbs w = Inr ys"
    and "\<And>d rs. w d = Inr rs \<Longrightarrow> map f rs = g d"
  shows "mset (map f ys) = mset (concat (map g (connectable (cat (st_pool s)))))"
proof -
  note names = database_names [OF assms(1,2,4)]
  have "is_schedule sched dbs"
    using assms(3) names by (metis is_schedule_def length_map)
  then have "mset (map f ys) = mset (concat (map (\<lambda>db. g (db_Name db)) dbs))"
    using assms(5,6) by (intro forEachDatabase_rows)
  moreover have "map (\<lambda>db. g (db_Name db)) dbs = map g (map db_Name dbs)"
    by simp
  ultimately show ?thesis
    by (simp only: names)
qed

end

text \<open>The entries of a database in the lists of schemas, functions, sequences and installed extensions.
  Of the schemas, and of the functions and sequences in them, \<open>information_schema\<close> and the names that
  have \<open>pg\<close> before at least one more character are left out.\<close>

definition schema_entries :: "catalog \<Rightarrow> string \<Rightarrow> Schema list" where
  "schema_entries c d =
     [\<lparr>sch_Database = d, sch_Name = nspname n, sch_Owner = pg_get_userbyid c (nspowner n), sch_Oid = nsp_oid n\<rparr>.
      n \<leftarrow> namespaces c, nspname n \<noteq> ''information_schema'' \<and> (nspname n = ''pg'' \<or> take 2 (nspname n) \<noteq> ''pg'')]"

definition function_entries :: "catalog \<Rightarrow> string \<Rightarrow> Function list" where
  "function_entries c d =
     [\<lparr>fn_Name = proname p, fn_Schema = nspname n, fn_Owner = pg_get_userbyid c (proowner p), fn_Database = d,
       fn_Language = lanname l, fn_ReturnType = format_type c (prorettype p) None,
       fn_IdentityArguments = pg_get_function_identity_arguments c (pro_oid p), fn_Oid = pro_oid p\<rparr>.
      p \<leftarrow> procs c, n \<leftarrow> namespaces c, l \<leftarrow> languages c,
      pronamespace p = nsp_oid n \<and> prolang p = lan_oid l \<and>
      nspname n \<noteq> ''information_schema'' \<and> (nspname n = ''pg'' \<or> take 2 (nspname n) \<noteq> ''pg'')]"

text \<open>A sequence has an entry in \<open>pg_class\<close>, of the kind \<open>S\<close>, and one in \<open>pg_sequence\<close>.\<close>

definition sequence_entries :: "catalog \<Rightarrow> string \<Rightarrow> Sequence list" where
  "sequence_entries c d =
     [\<lparr>seq_Name = relname r, seq_Schema = nspname n, seq_Owner = pg_get_userbyid c (relowner r), seq_Database = d,
       seq_DataType = typname t, seq_Oid = rel_oid r\<rparr>.
      r \<leftarrow> classes c, n \<leftarrow> namespaces c, s \<leftarrow> sequences c, t \<leftarrow> pgtypes c,
      relkind r = CHR ''S'' \<and> relnamespace r = nsp_oid n \<and> seqrelid s = rel_oid r \<and> seqtypid s = typ_oid t \<and>
      nspname n \<noteq> ''information_schema'' \<and> (nspname n = ''pg'' \<or> take 2 (nspname n) \<noteq> ''pg'')]"

definition extension_entries :: "catalog \<Rightarrow> string \<Rightarrow> InstalledExtension list" where
  "extension_entries c d =
     [\<lparr>ie_Name = extname e, ie_Version = extversion e, ie_Schema = nspname n, ie_Database = d, ie_Oid = ext_oid e\<rparr>.
      e \<leftarrow> extensions c, n \<leftarrow> namespaces c, extnamespace e = nsp_oid n]"

lemma mset_map_sort_key: "mset (map f (sort_key k xs)) = mset (map f xs)"
  by (simp only: mset_map mset_sort)

lemma schema_entries_query:
  "map (\<lambda>(oid, name, own). \<lparr>sch_Database = d, sch_Name = name, sch_Owner = own, sch_Oid = oid\<rparr>)
     (queryListSchemas c) = schema_entries c d"
  by (simp add: queryListSchemas_def schema_entries_def listed_schema_iff map_concat o_def if_distrib cong: if_cong)

lemma function_entries_query:
  "map (\<lambda>(oid, name, schema, own, language, returnType, identityArguments).
      \<lparr>fn_Name = name, fn_Schema = schema, fn_Owner = own, fn_Database = d, fn_Language = language,
       fn_ReturnType = returnType, fn_IdentityArguments = identityArguments, fn_Oid = oid\<rparr>)
     (queryFunctions c) = function_entries c d"
  unfolding queryFunctions_def function_entries_def listed_schema_iff map_concat map_map
  by (intro arg_cong [where f = concat] map_cong refl) (auto simp: map_concat intro!: arg_cong [where f = concat] map_cong)

lemma sequence_entries_query:
  "mset (map (\<lambda>(oid, name, schema, own, dataType). \<lparr>seq_Name = name, seq_Schema = schema, seq_Owner = own,
      seq_Database = d, seq_DataType = dataType, seq_Oid = oid\<rparr>) (querySequences c)) = mset (sequence_entries c d)"
proof -
  have "map (\<lambda>(oid, name, schema, own, dataType). \<lparr>seq_Name = name, seq_Schema = schema, seq_Owner = own,
      seq_Database = d, seq_DataType = dataType, seq_Oid = oid\<rparr>)
     [(rel_oid r, relname r, nspname n, pg_get_userbyid c (relowner r), typname t).
      r \<leftarrow> classes c,
      n \<leftarrow> namespaces c, relnamespace r = nsp_oid n,
      s \<leftarrow> sequences c, seqrelid s = rel_oid r,
      t \<leftarrow> pgtypes c, typ_oid t = seqtypid s,
      relkind r = CHR ''S'' \<and> listed_schema (nspname n)] = sequence_entries c d"
    unfolding sequence_entries_def listed_schema_iff map_concat map_map
    by (intro arg_cong [where f = concat] map_cong refl) (auto simp: map_concat intro!: arg_cong [where f = concat] map_cong)
  then show ?thesis
    by (simp only: querySequences_def mset_map_sort_key)
qed

lemma extension_entries_query:
  "mset (map (\<lambda>(oid, name, version, schema). \<lparr>ie_Name = name, ie_Version = version, ie_Schema = schema,
      ie_Database = d, ie_Oid = oid\<rparr>) (queryListInstalledExtensions c)) = mset (extension_entries c d)"
proof -
  have "map (\<lambda>(oid, name, version, schema). \<lparr>ie_Name = name, ie_Version = version, ie_Schema = schema,
      ie_Database = d, ie_Oid = oid\<rparr>)
     [(ext_oid e, extname e, extversion e, nspname n).
      e \<leftarrow> extensions c,
      n \<leftarrow> namespaces c, extnamespace e = nsp_oid n] = extension_entries c d"
    by (simp add: extension_entries_def map_concat o_def if_distrib cong: if_cong)
  then show ?thesis
    by (simp only: queryListInstalledExtensions_def mset_map_sort_key)
qed

lemma mset_concat_map_cong:
  "(\<And>d. mset (f d) = mset (g d)) \<Longrightarrow> mset (concat (map f ds)) = mset (concat (map g ds))"
  by (induction ds) auto

context catalog_driver
begin

lemma list_rows:
  assumes "pgx_Query x (st_pool s) SqlDatabases = Inr rows" "rw_err rows = None"
    and "is_schedule sched (connectable (cat (st_pool s)))"
  shows "ListSequences x s acq sched = Inr seqs \<Longrightarrow>
      mset seqs = mset (concat (map (\<lambda>d. sequence_entries (cat (st_connStrFor s d)) d) (connectable (cat (st_pool s)))))" (is "?s1 \<Longrightarrow> ?c1")
    and "ListFunctions x s acq sched = Inr fns \<Longrightarrow>
      mset fns = mset (concat (map (\<lambda>d. function_entries (cat (st_connStrFor s d)) d) (connectable (cat (st_pool s)))))" (is "?s2 \<Longrightarrow> ?c2")
    and "ListExtensions x s acq sched = Inr (avail, exts) \<Longrightarrow>
      mset exts = mset (concat (map (\<lambda>d. extension_entries (cat (st_connStrFor s d)) d) (connectable (cat (st_pool s)))))" (is "?s3 \<Longrightarrow> ?c3")
proof -
  assume ?s1
  then obtain dbs where dbs: "snd (ListDatabases x s) = Inr dbs"
    "forEachDatabase sched dbs (\<lambda>d. snd (listSequencesForDatabase x s acq d)) = Inr seqs"
    by (auto simp: ListSequences_def split: sum.splits)
  from aggregated_rows [OF assms dbs, of "\<lambda>q. q"] worker_rows(2) show ?c1
    unfolding sequence_entries_query [symmetric, THEN mset_concat_map_cong] by simp
next
  assume ?s2
  then obtain dbs where dbs: "snd (ListDatabases x s) = Inr dbs"
    "forEachDatabase sched dbs (\<lambda>d. snd (listFunctionsForDatabase x s acq d)) = Inr fns"
    by (auto simp: ListFunctions_def split: sum.splits)
  from aggregated_rows [OF assms dbs, of "\<lambda>q. q"] worker_rows(3) show ?c2
    by (simp add: function_entries_query)
next
  assume ?s3
  then obtain dbs where dbs: "snd (ListDatabases x s) = Inr dbs"
    "forEachDatabase sched dbs (\<lambda>d. snd (listInstalledExtensionsForDatabase x s acq d)) = Inr exts"
    by (auto simp: ListExtensions_def split: sum.splits)
  from aggregated_rows [OF assms dbs, of "\<lambda>q. q"] worker_rows(4) show ?c3
    unfolding extension_entries_query [symmetric, THEN mset_concat_map_cong] by simp
qed

lemma available_rows:
  assumes "ListExtensions x s acq sched = Inr (avail, exts)"
  shows "map (\<lambda>a. (ae_Name a, Some (ae_DefaultVersion a))) avail = available_extensions (cat (st_pool s))"
proof -
  have "snd (listAvailableExtensions x s) = Inr avail"
    using assms by (auto simp: ListExtensions_def split: sum.splits)
  then obtain rows vs where "pgx_Query x (st_pool s) SqlAvailableExtensions = Inr rows" "rw_err rows = None"
    "map (pgx_ScanAvailable x) (rw_rows rows) = map Inr vs"
    "avail = map (\<lambda>(name, version). \<lparr>ae_Name = name, ae_DefaultVersion = version\<rparr>) vs"
    by (auto simp: listAvailableExtensions_def scan_loop_Inr_iff split: sum.splits option.splits)
  then show ?thesis
    using available_scanned [OF scan_available] by (simp add: queryAvailableExtensions_def o_def case_prod_unfold)
qed

end

end
