(* ===== verification/Pg_Jsonb.thy ===== *)
theory Pg_Jsonb
  imports Go_Unmarshal
begin

text \<open>
  The values of the PostgreSQL type \<open>jsonb\<close> and what a Go program reads from their text. The server does
  not keep the order of object members, so the text of a value is any JSON text of a value that is
  equal up to that order. What a JSON value represents does not depend on the order
  (\<open>represents_equiv\<close>), and an object with one member for each field of a struct represents the struct
  of the members' values (\<open>represents_objI\<close>).
\<close>

section \<open>The text of a jsonb value\<close>

text \<open>Equality up to the order of object members, which \<open>jsonb\<close> does not keep.\<close>

inductive json_equiv :: "json \<Rightarrow> json \<Rightarrow> bool" where
  equiv_null: "json_equiv JNull JNull"
| equiv_bool: "json_equiv (JBool b) (JBool b)"
| equiv_num: "json_equiv (JNum n) (JNum n)"
| equiv_str: "json_equiv (JStr s) (JStr s)"
| equiv_arr: "list_all2 json_equiv js js' \<Longrightarrow> json_equiv (JArr js) (JArr js')"
| equiv_obj: "list_all2 (\<lambda>m m'. fst m = fst m' \<and> json_equiv (snd m) (snd m')) ms ms' \<Longrightarrow> mset ms' = mset ms'' \<Longrightarrow>
    json_equiv (JObj ms) (JObj ms'')"

definition jsonb_text :: "json \<Rightarrow> string \<Rightarrow> bool" where
  "jsonb_text j d \<longleftrightarrow> (\<exists>j'. parse_json d = Some j' \<and> json_equiv j j')"

inductive_cases json_equivE:
  "json_equiv JNull j" "json_equiv (JBool b) j" "json_equiv (JNum n) j" "json_equiv (JStr s) j"
  "json_equiv (JArr js) j" "json_equiv (JObj ms) j"

lemma json_equiv_refl: "json_equiv j j"
proof (induction j)
  case (JArr js)
  then show ?case by (intro equiv_arr) (simp add: list.rel_refl_strong)
next
  case (JObj ms)
  then have "list_all2 (\<lambda>m m'. fst m = fst m' \<and> json_equiv (snd m) (snd m')) ms ms"
    by (intro list.rel_refl_strong) (metis prod.collapse snds.intros)
  then show ?case by (rule equiv_obj) simp
qed (auto intro: json_equiv.intros)

lemma list_all2_partners:
  assumes "list_all2 R xs ys"
  shows "y \<in> set ys \<Longrightarrow> \<exists>x \<in> set xs. R x y" "x \<in> set xs \<Longrightarrow> \<exists>y \<in> set ys. R x y"
  using assms by (metis in_set_conv_nth list_all2_conv_all_nth)+

lemma equiv_members:
  assumes "list_all2 (\<lambda>m m'. fst m = fst m' \<and> P (snd m) (snd m')) ms ms'" "mset ms' = mset ms''"
  shows "m'' \<in> set ms'' \<Longrightarrow> \<exists>m \<in> set ms. fst m = fst m'' \<and> P (snd m) (snd m'')"
    and "m \<in> set ms \<Longrightarrow> \<exists>m'' \<in> set ms''. fst m = fst m'' \<and> P (snd m) (snd m'')"
  using list_all2_partners [OF assms(1)] mset_eq_setD [OF assms(2)] by auto

lemma represents_equiv: "represents t v j \<Longrightarrow> json_equiv j j' \<Longrightarrow> represents t v j'"
proof (induction arbitrary: j' rule: represents.induct)
  case (rep_slice t xs js)
  then obtain js' where js': "j' = JArr js'" "list_all2 json_equiv js js'"
    by (auto elim: json_equivE)
  have "list_all2 (represents t) xs js'"
    using rep_slice(1) js'(2) by (auto simp: list_all2_conv_all_nth)
  with js' show ?case by (auto intro: represents.rep_slice)
next
  case (rep_ptr j t v)
  then have "j' \<noteq> JNull" by (auto elim: json_equiv.cases)
  with rep_ptr show ?case by (auto intro: represents.rep_ptr)
next
  case (rep_struct vs fs ms)
  from rep_struct.prems obtain ms' ms'' where ms: "j' = JObj ms''" "mset ms' = mset ms''"
    "list_all2 (\<lambda>m m'. fst m = fst m' \<and> json_equiv (snd m) (snd m')) ms ms'"
    by (auto elim: json_equivE)
  note mem = equiv_members [OF ms(3,2)]
  show ?case
    unfolding ms(1)
  proof (rule represents.rep_struct)
    show "represents (snd (fs ! i)) (vs ! i) (snd m)"
      if "i < length fs" "m \<in> set ms''" "field_index fs (fst m) = Some i" for i m
      using mem(1) [OF that(2)] rep_struct.IH that by metis
    show "vs ! i = zero (snd (fs ! i))"
      if "i < length fs" "\<forall>m \<in> set ms''. field_index fs (fst m) \<noteq> Some i" for i
      using rep_struct(3) that mem(2) by metis
  qed (rule rep_struct(1))
qed (auto elim: json_equivE intro: represents.intros)

lemma no_dups_equiv: "json_equiv j j' \<Longrightarrow> no_dups j \<Longrightarrow> no_dups j'"
proof (induction rule: json_equiv.induct)
  case (equiv_arr js js')
  then show ?case by (auto simp: list_all2_conv_all_nth list_all_length)
next
  case (equiv_obj ms ms' ms'')
  have keys: "map fst ms = map fst ms'"
    using equiv_obj(1) by (auto simp: list_all2_conv_all_nth intro!: nth_equalityI)
  have "mset (map (\<lambda>m. foldName (fst m)) ms'') = mset (map foldName (map fst ms'))"
    using equiv_obj(2) by (simp add: o_def)
  also have "\<dots> = mset (map (\<lambda>m. foldName (fst m)) ms)"
    unfolding keys [symmetric] by (simp add: o_def)
  finally have "distinct (map (\<lambda>m. foldName (fst m)) ms'')"
    using equiv_obj(3) mset_eq_imp_distinct_iff by (metis no_dups.simps(2))
  moreover have "no_dups (snd m)" if m: "m \<in> set ms''" for m
  proof -
    obtain m0 where "m0 \<in> set ms" "no_dups (snd m0) \<longrightarrow> no_dups (snd m)"
      using equiv_members(1) [of "\<lambda>j j'. json_equiv j j' \<and> (no_dups j \<longrightarrow> no_dups j')", OF equiv_obj(1,2) m] by blast
    then show ?thesis
      using equiv_obj(3) by (auto simp: list_all_iff)
  qed
  ultimately show ?case by (simp add: list_all_iff)
qed auto

lemma describes_jsonb: "jsonb_text j d \<Longrightarrow> represents t v j \<Longrightarrow> describes t v d"
  by (auto simp: jsonb_text_def describes_def intro: represents_equiv)

lemma single_names_jsonb: "jsonb_text j d \<Longrightarrow> no_dups j \<Longrightarrow> single_names d"
  by (auto simp: jsonb_text_def single_names_def intro: no_dups_equiv)

text \<open>An object that has one member for each field of a struct, in any order.\<close>

lemma represents_objI:
  assumes "distinct (map (\<lambda>f. foldName (fst f)) fs)"
    and "list_all2 (\<lambda>f v. \<exists>j. map_of ms (fst f) = Some j \<and> represents (snd f) v j) fs vs"
    and "distinct (map fst ms)" "set (map fst ms) \<subseteq> set (map fst fs)"
  shows "represents (GStruct fs) (VStruct vs) (JObj ms)"
proof (rule rep_struct)
  show "length vs = length fs"
    using assms(2) by (simp add: list_all2_lengthD)
  have at: "\<exists>j. map_of ms (fst (fs ! i)) = Some j \<and> represents (snd (fs ! i)) (vs ! i) j" if "i < length fs" for i
    using assms(2) that by (auto simp: list_all2_conv_all_nth)
  show "represents (snd (fs ! i)) (vs ! i) (snd m)"
    if i: "i < length fs" "m \<in> set ms" "field_index fs (fst m) = Some i" for i m
  proof -
    have "fst m \<in> set (map fst fs)"
      using assms(4) i(2) by auto
    then obtain k where "k < length (map fst fs)" "map fst fs ! k = fst m"
      unfolding in_set_conv_nth by blast
    then have k: "k < length fs" "fst m = fst (fs ! k)"
      by simp_all
    then have "k = i"
      using field_index_own [OF assms(1) k(1)] i(3) by simp
    moreover have "map_of ms (fst m) = Some (snd m)"
      using assms(3) i(2) by (simp add: map_of_eq_Some_iff)
    ultimately show ?thesis
      using at [OF i(1)] k(2) by auto
  qed
  show "vs ! i = zero (snd (fs ! i))"
    if "i < length fs" "\<forall>m \<in> set ms. field_index fs (fst m) \<noteq> Some i" for i
    using at [OF that(1)] that field_index_own [OF assms(1) that(1)] by (metis fst_conv map_of_SomeD)
qed

end
