(* ===== verification/Pg_Table_Query.thy ===== *)
theory Pg_Table_Query
  imports Pg_Catalog Pg_Tables Pg_Jsonb
begin

text \<open>
  The statement \<open>queryTables\<close> of \<open>tables.go\<close> as a function of the catalog, one definition per common table
  expression, and what becomes of its rows: the JSON documents it builds are decoded by the table
  worker into exactly the columns, indexes, constraints, parents and sizes of the catalog.

  A \<open>jsonb\<close> value is a \<^typ>\<open>json\<close> value; its text, which the driver delivers, is any JSON text of a value
  that differs at most in the order of object members (\<open>jsonb_text\<close>). An SQL NULL is \<^const>\<open>None\<close>, and
  \<^const>\<open>JNull\<close> as an argument of \<open>jsonb_build_object\<close>.
\<close>

section \<open>Grouping and joining\<close>

definition group_by :: "('a \<Rightarrow> 'k) \<Rightarrow> 'a list \<Rightarrow> ('k \<times> 'a list) list" where
  "group_by f xs = map (\<lambda>k. (k, filter (\<lambda>x. f x = k) xs)) (remdups (map f xs))"

definition left_join :: "'a list \<Rightarrow> ('a \<Rightarrow> 'b \<Rightarrow> bool) \<Rightarrow> 'b list \<Rightarrow> ('a \<times> 'b option) list" where
  "left_join xs on ys =
     concat (map (\<lambda>x. let ms = filter (on x) ys in
       if ms = [] then [(x, None)] else map (\<lambda>y. (x, Some y)) ms) xs)"

definition json_bigint :: "int option \<Rightarrow> json" where
  "json_bigint n = (case n of None \<Rightarrow> JNull | Some i \<Rightarrow> JNum (show_int i))"

text \<open>The value of \<open>array_agg\<close> over names: NULL when there are no rows.\<close>

definition json_names :: "string list \<Rightarrow> json" where
  "json_names xs = (if xs = [] then JNull else JArr (map JStr xs))"

section \<open>The common table expressions\<close>

text \<open>The rows of the join for one index: its key, unnested with ordinality, and the columns.\<close>

definition index_key_rows :: "catalog \<Rightarrow> pg_index \<Rightarrow> ((oid \<times> oid) \<times> nat \<times> string) list" where
  "index_key_rows cat ix =
     [((indexrelid ix, indrelid ix), n, attname a).
      (n, num) \<leftarrow> List.enumerate 1 (indkey ix),
      a \<leftarrow> attributes cat, attrelid a = indrelid ix \<and> attnum a = num]"

definition index_column_names :: "catalog \<Rightarrow> (oid \<times> oid \<times> string list) list" where
  "index_column_names cat =
     map (\<lambda>((irel, rel), rows).
           (irel, rel, map (\<lambda>(k, n, name). name) (sort_key (\<lambda>(k, n, name). n) rows)))
      (group_by fst (concat (map (index_key_rows cat) (indexes cat))))"

text \<open>The schemas whose tables are listed.\<close>

definition user_schema :: "string \<Rightarrow> bool" where
  "user_schema name \<longleftrightarrow> name \<notin> {''pg_catalog'', ''information_schema'', ''pg_toast''} \<and>
     \<not> like ''pg_temp_%'' name \<and> \<not> like ''pg_toast_temp_%'' name"

definition index_json :: "catalog \<Rightarrow> pg_index \<Rightarrow> pg_class \<Rightarrow> pg_am \<Rightarrow> string list option \<Rightarrow> json" where
  "index_json cat ix idx am columns = JObj
     [(''name'', JStr (relname idx)),
      (''type'', JStr (amname am)),
      (''columns'', case columns of None \<Rightarrow> JNull | Some names \<Rightarrow> JArr (map JStr names)),
      (''is_unique'', JBool (indisunique ix)),
      (''is_primary'', JBool (indisprimary ix)),
      (''is_exclusion'', JBool (indisexclusion ix)),
      (''is_partial'', JBool (indpred ix \<noteq> None)),
      (''is_valid'', JBool (indisvalid ix)),
      (''is_inherited'', JBool (\<exists>inh \<in> set (inherits cat). inhrelid inh = indexrelid ix)),
      (''size_bytes'', json_bigint (pg_relation_size cat (indexrelid ix))),
      (''definition'', JStr (pg_get_indexdef cat (indexrelid ix)))]"

definition index_data :: "catalog \<Rightarrow> (oid \<times> oid \<times> json) list" where
  "index_data cat =
     [(indrelid ix, indexrelid ix, index_json cat ix idx am (map_option (\<lambda>(irel, rel, names). names) ic)).
      ((ix, idx, tbl, am), ic) \<leftarrow> left_join
        [(ix, idx, tbl, am).
         ix \<leftarrow> indexes cat,
         idx \<leftarrow> classes cat, rel_oid idx = indexrelid ix \<and> relkind idx \<in> {CHR ''i'', CHR ''I''},
         tbl \<leftarrow> classes cat, rel_oid tbl = indrelid ix,
         am \<leftarrow> access_methods cat, am_oid am = relam idx]
        (\<lambda>(ix, idx, tbl, am) (irel, rel, names). irel = indexrelid ix) (index_column_names cat),
      \<exists>n \<in> set (namespaces cat). nsp_oid n = relnamespace tbl \<and> user_schema (nspname n)]"

definition index_agg :: "catalog \<Rightarrow> (oid \<times> json) list" where
  "index_agg cat =
     map (\<lambda>(table_oid, rows). (table_oid, JArr (map (\<lambda>(t, i, index_json). index_json) rows)))
      (group_by fst (index_data cat))"

text \<open>The names of the columns of a key, in the order of the key.\<close>

definition key_columns :: "catalog \<Rightarrow> oid \<Rightarrow> int list \<Rightarrow> string list" where
  "key_columns cat rel key = map snd (sort_key fst
     [(n, attname a). (n, num) \<leftarrow> List.enumerate 1 key,
      a \<leftarrow> attributes cat, attrelid a = rel \<and> attnum a = num])"

definition constraint_type :: "char \<Rightarrow> json" where
  "constraint_type c =
     (if c = CHR ''p'' then JStr ''primary_key''
      else if c = CHR ''u'' then JStr ''unique''
      else if c = CHR ''f'' then JStr ''foreign_key''
      else if c = CHR ''c'' then JStr ''check''
      else if c = CHR ''x'' then JStr ''exclusion''
      else JNull)"

definition constraint_json :: "catalog \<Rightarrow> pg_constraint \<Rightarrow> json" where
  "constraint_json cat con = JObj
     [(''name'', JStr (conname con)),
      (''type'', constraint_type (contype con)),
      (''local_columns'', json_names (key_columns cat (conrelid con) (conkey con))),
      (''foreign_table'', if contype con = CHR ''f'' then JStr (regclass_text cat (confrelid con)) else JNull),
      (''foreign_columns'',
        if contype con = CHR ''f'' then json_names (key_columns cat (confrelid con) (confkey con)) else JNull),
      (''definition'', JStr (pg_get_constraintdef cat (con_oid con)))]"

definition constraint_data :: "catalog \<Rightarrow> (oid \<times> json) list" where
  "constraint_data cat =
     map (\<lambda>(rel, rows). (rel, JArr (map (constraint_json cat) rows)))
      (group_by conrelid [con \<leftarrow> constraints cat. contype con \<in> set ''pufcx''])"

definition parent_json :: "catalog \<Rightarrow> pg_inherits \<Rightarrow> json" where
  "parent_json cat inh = JObj
     [(''oid'', JNum (show_int (uint (inhparent inh)))),
      (''name'', JStr (regclass_text cat (inhparent inh)))]"

definition inheritance_parents :: "catalog \<Rightarrow> (oid \<times> json) list" where
  "inheritance_parents cat =
     map (\<lambda>(table_oid, rows). (table_oid, JArr (map (parent_json cat) (sort_key inhseqno rows))))
      (group_by inhrelid (inherits cat))"

section \<open>The statement\<close>

record table_result =
  r_oid :: oid
  r_name :: string
  r_schema :: string
  r_owner :: string
  r_comment :: "string option"
  r_stats :: json
  r_columns :: "json option"
  r_indexes :: "json option"
  r_constraints :: "json option"
  r_inheritance :: json

definition stats_json :: "catalog \<Rightarrow> pg_class \<Rightarrow> json" where
  "stats_json cat c = JObj
     [(''row_estimate'', JNum (show_int (reltuples c))),
      (''total_size_bytes'', json_bigint (pg_total_relation_size cat (rel_oid c))),
      (''heap_size_bytes'', json_bigint (pg_relation_size cat (rel_oid c))),
      (''toast_size_bytes'', JNum (show_int
        (case pg_relation_size cat (reltoastrelid c) of None \<Rightarrow> 0 | Some n \<Rightarrow> n)))]"

definition column_json :: "catalog \<Rightarrow> pg_attribute \<Rightarrow> json" where
  "column_json cat att = JObj
     [(''name'', JStr (attname att)),
      (''type'', JStr (format_type cat (atttypid att) (Some (atttypmod att)))),
      (''not_null'', JBool (attnotnull att)),
      (''is_inherited'', JBool (attinhcount att > 0))]"

definition table_columns :: "catalog \<Rightarrow> pg_class \<Rightarrow> json option" where
  "table_columns cat c =
     (let atts = [att \<leftarrow> attributes cat. attrelid att = rel_oid c \<and> attnum att > 0 \<and> \<not> attisdropped att] in
      if atts = [] then None else Some (JArr (map (column_json cat) (sort_key attnum atts))))"

definition queryTables :: "catalog \<Rightarrow> table_result list" where
  "queryTables cat =
     sort_key (\<lambda>r. (r_schema r, r_name r))
     [\<lparr>r_oid = rel_oid c, r_name = relname c, r_schema = nspname n,
       r_owner = pg_get_userbyid cat (relowner c), r_comment = obj_description cat (rel_oid c),
       r_stats = stats_json cat c, r_columns = table_columns cat c,
       r_indexes = map_option snd ia, r_constraints = map_option snd cd,
       r_inheritance = JObj [(''parent_tables'', case ip of None \<Rightarrow> JNull | Some (t, parents) \<Rightarrow> parents)]\<rparr>.
      ((((c, n), ia), cd), ip) \<leftarrow>
        left_join (left_join (left_join
          [(c, n). c \<leftarrow> classes cat, n \<leftarrow> namespaces cat, nsp_oid n = relnamespace c]
          (\<lambda>(c, n) (t, j). t = rel_oid c) (index_agg cat))
          (\<lambda>((c, n), ia) (t, j). t = rel_oid c) (constraint_data cat))
          (\<lambda>(((c, n), ia), cd) (t, j). t = rel_oid c) (inheritance_parents cat),
      relkind c \<in> {CHR ''r'', CHR ''p''} \<and> user_schema (nspname n)]"

section \<open>Joins with groups\<close>

text \<open>A key has at most one group, so a LEFT JOIN with groups neither drops nor repeats rows.\<close>

lemma filter_group_by:
  "filter (\<lambda>g. fst g = k) (map (\<lambda>(k, rows). (k, F rows)) (group_by f ys)) =
    (let rows = filter (\<lambda>y. f y = k) ys in if rows = [] then [] else [(k, F rows)])"
proof -
  have one: "filter (\<lambda>k'. k' = k) (remdups zs) = (if k \<in> set zs then [k] else [])" for zs
    by (induction zs) auto
  have "filter (\<lambda>g. fst g = k) (map (\<lambda>(k, rows). (k, F rows)) (group_by f ys)) =
      map (\<lambda>k. (k, F (filter (\<lambda>y. f y = k) ys))) (filter (\<lambda>k'. k' = k) (remdups (map f ys)))"
    by (simp add: group_by_def filter_map o_def)
  also have "\<dots> = (let rows = filter (\<lambda>y. f y = k) ys in if rows = [] then [] else [(k, F rows)])"
    unfolding one by (auto simp: Let_def filter_empty_conv)
  finally show ?thesis .
qed

lemma left_join_unique:
  "(\<And>x. x \<in> set xs \<Longrightarrow> filter (on x) ys = (case m x of None \<Rightarrow> [] | Some y \<Rightarrow> [y])) \<Longrightarrow>
    left_join xs on ys = map (\<lambda>x. (x, m x)) xs"
  unfolding left_join_def by (induction xs) (auto split: option.splits)

lemma left_join_groups:
  assumes "\<And>x y. on x y \<longleftrightarrow> fst y = key x"
  shows "left_join xs on (map (\<lambda>(k, rows). (k, F rows)) (group_by f ys)) =
    map (\<lambda>x. (x, let rows = filter (\<lambda>y. f y = key x) ys in if rows = [] then None else Some (key x, F rows))) xs"
proof (rule left_join_unique)
  fix x
  have "on x = (\<lambda>g. fst g = key x)"
    by (simp add: fun_eq_iff assms)
  then show "filter (on x) (map (\<lambda>(k, rows). (k, F rows)) (group_by f ys)) =
      (case (let rows = filter (\<lambda>y. f y = key x) ys in if rows = [] then None else Some (key x, F rows)) of
        None \<Rightarrow> [] | Some y \<Rightarrow> [y])"
    by (simp only: filter_group_by) (simp add: Let_def)
qed

section \<open>What the statement returns\<close>

text \<open>The oids of namespaces, relations and indexes are unique.\<close>

definition catalog_ok :: "catalog \<Rightarrow> bool" where
  "catalog_ok cat \<longleftrightarrow> distinct (map nsp_oid (namespaces cat)) \<and> distinct (map rel_oid (classes cat)) \<and>
     distinct (map indexrelid (indexes cat))"

lemma filter_concat_key:
  assumes "distinct (map f xs)" "x \<in> set xs" "\<And>y r. y \<in> set xs \<Longrightarrow> r \<in> set (g y) \<Longrightarrow> P r \<longleftrightarrow> f y = f x"
  shows "filter P (concat (map g xs)) = g x"
  using assms
proof (induction xs)
  case (Cons y ys)
  have nil: "filter P (concat (map g zs)) = []" if "\<And>z. z \<in> set zs \<Longrightarrow> z \<in> set (y # ys) \<and> f z \<noteq> f x" for zs
    using that Cons.prems(3) by (fastforce simp: filter_empty_conv)
  show ?case
  proof (cases "f y = f x")
    case True
    then have "y = x"
      using Cons.prems(1,2) by (auto simp: image_iff)
    moreover have "filter P (g y) = g y"
      using Cons.prems(3) True by (auto intro: filter_True)
    moreover have "filter P (concat (map g ys)) = []"
      by (rule nil) (use Cons.prems(1) True in \<open>auto simp: image_iff\<close>)
    ultimately show ?thesis by simp
  next
    case False
    have "filter P (g y) = []"
      using Cons.prems(3) False by (auto simp: filter_empty_conv)
    with False Cons show ?thesis by auto
  qed
qed simp

lemma filter_remdups_eq: "filter (\<lambda>k'. k' = k) (remdups zs) = (if k \<in> set zs then [k] else [])"
  by (induction zs) auto

lemma sort_key_map: "sort_key f (map g xs) = map g (sort_key (\<lambda>x. f (g x)) xs)"
proof -
  have "insort_key f (g x) (map g ys) = map g (insort_key (\<lambda>x. f (g x)) x ys)" for x ys
    by (induction ys) auto
  then show ?thesis
    by (induction xs) auto
qed

text \<open>The row of an index in \<open>index_column_names\<close>: its column names; none if there are no columns.\<close>

lemma index_column_names_of:
  assumes "catalog_ok cat" "ix \<in> set (indexes cat)"
  shows "filter (\<lambda>(irel, rel, names). irel = indexrelid ix) (index_column_names cat) =
    (let names = key_columns cat (indrelid ix) (indkey ix) in
     if names = [] then [] else [(indexrelid ix, indrelid ix, names)])"
proof -
  let ?key = "(indexrelid ix, indrelid ix)"
  let ?rows = "index_key_rows cat"
  let ?R = "concat (map ?rows (indexes cat))"
  let ?F = "\<lambda>rows. map (\<lambda>(k, n, name). name) (sort_key (\<lambda>(k, n, name). n) rows)"
  have uniq: "fst r = (indexrelid ix, indrelid ix)" if "r \<in> set (?rows ix)" for r ix
    using that by (auto simp: index_key_rows_def)
  have same: "fst k = indexrelid ix \<longleftrightarrow> k = ?key" if k: "k \<in> fst ` set ?R" for k
  proof -
    obtain jx where jx: "jx \<in> set (indexes cat)" "k = (indexrelid jx, indrelid jx)"
      using k uniq unfolding set_concat set_map by blast
    have "indexrelid jx = indexrelid ix \<Longrightarrow> jx = ix"
      using assms jx(1) unfolding catalog_ok_def by (metis distinct_map inj_onD)
    with jx show ?thesis by auto
  qed
  have only: "filter (\<lambda>k. fst k = indexrelid ix) (remdups (map fst ?R)) = (if ?key \<in> fst ` set ?R then [?key] else [])"
  proof -
    have "filter (\<lambda>k. fst k = indexrelid ix) (remdups (map fst ?R)) = filter (\<lambda>k. k = ?key) (remdups (map fst ?R))"
      using same by (intro filter_cong refl) auto
    also have "\<dots> = (if ?key \<in> set (map fst ?R) then [?key] else [])"
      by (rule filter_remdups_eq)
    finally show ?thesis by (simp only: set_map)
  qed
  have rows: "filter (\<lambda>r. fst r = ?key) ?R = ?rows ix"
  proof (rule filter_concat_key [of indexrelid])
    show "distinct (map indexrelid (indexes cat))" "ix \<in> set (indexes cat)"
      using assms by (auto simp: catalog_ok_def)
    show "fst r = ?key \<longleftrightarrow> indexrelid y = indexrelid ix" if "y \<in> set (indexes cat)" "r \<in> set (?rows y)" for y r
      using uniq [OF that(2)] assms that(1) unfolding catalog_ok_def by (metis distinct_map inj_onD prod.inject)
  qed
  have names: "?F (?rows ix) = key_columns cat (indrelid ix) (indkey ix)"
  proof -
    have "?rows ix = map (Pair ?key) [(n, attname a). (n, num) \<leftarrow> List.enumerate 1 (indkey ix),
        a \<leftarrow> attributes cat, attrelid a = indrelid ix \<and> attnum a = num]"
      by (simp add: index_key_rows_def map_concat o_def case_prod_unfold if_distrib cong: if_cong)
    then show ?thesis
      by (simp add: key_columns_def sort_key_map o_def case_prod_unfold)
  qed
  have empty: "?key \<in> fst ` set ?R \<longleftrightarrow> key_columns cat (indrelid ix) (indkey ix) \<noteq> []"
  proof -
    have "?key \<in> fst ` set ?R \<longleftrightarrow> filter (\<lambda>r. fst r = ?key) ?R \<noteq> []"
      by (simp only: filter_empty_conv image_iff) metis
    also have "\<dots> \<longleftrightarrow> ?F (?rows ix) \<noteq> []"
      unfolding rows by (metis (no_types, lifting) Nil_is_map_conv length_0_conv length_sort)
    finally show ?thesis unfolding names .
  qed
  have "filter (\<lambda>(irel, rel, names). irel = indexrelid ix) (index_column_names cat) =
      map (\<lambda>k. (fst k, snd k, ?F (filter (\<lambda>r. fst r = k) ?R))) (filter (\<lambda>k. fst k = indexrelid ix) (remdups (map fst ?R)))"
    unfolding index_column_names_def group_by_def by (simp add: case_prod_unfold filter_map o_def)
  then show ?thesis
    unfolding only by (simp only: empty if_distrib [of "map _"]) (simp add: rows names Let_def)
qed


lemma concat_unique:
  "distinct (map f xs) \<Longrightarrow> x \<in> set xs \<Longrightarrow> concat (map (\<lambda>y. if f y = f x then h y else []) xs) = h x"
proof (induction xs)
  case (Cons y ys)
  have "concat (map (\<lambda>y. if f y = f x then h y else []) zs) = []" if "\<forall>z \<in> set zs. f x \<noteq> f z" for zs
    using that by (induction zs) auto
  with Cons show ?case
    by (cases "f y = f x") (auto simp: image_iff simp del: concat_eq_Nil_conv)
qed simp

lemma concat_of_concat: "concat (concat xss) = concat (map concat xss)"
  by (induction xss) auto

lemma concat_guard:
  "concat (map (\<lambda>y. if A y then if L then h y else [] else []) xs) =
    (if L then concat (map (\<lambda>y. if A y then h y else []) xs) else [])"
  by (induction xs) auto

text \<open>The indexes of a table with their relations and access methods.\<close>

definition table_indexes :: "catalog \<Rightarrow> pg_class \<Rightarrow> (pg_index \<times> pg_class \<times> pg_am) list" where
  "table_indexes cat c =
     [(ix, idx, am). ix \<leftarrow> indexes cat, indrelid ix = rel_oid c,
      idx \<leftarrow> classes cat, rel_oid idx = indexrelid ix \<and> relkind idx \<in> {CHR ''i'', CHR ''I''},
      am \<leftarrow> access_methods cat, am_oid am = relam idx]"

definition names_or_null :: "string list \<Rightarrow> string list option" where
  "names_or_null names = (if names = [] then None else Some names)"

lemma index_data_of:
  assumes ok: "catalog_ok cat" and c: "c \<in> set (classes cat)"
    and n: "n \<in> set (namespaces cat)" "nsp_oid n = relnamespace c" "user_schema (nspname n)"
  shows "filter (\<lambda>r. fst r = rel_oid c) (index_data cat) =
    map (\<lambda>(ix, idx, am). (rel_oid c, indexrelid ix,
      index_json cat ix idx am (names_or_null (key_columns cat (indrelid ix) (indkey ix))))) (table_indexes cat c)"
proof -
  let ?base = "[(ix, idx, tbl, am).
         ix \<leftarrow> indexes cat,
         idx \<leftarrow> classes cat, rel_oid idx = indexrelid ix \<and> relkind idx \<in> {CHR ''i'', CHR ''I''},
         tbl \<leftarrow> classes cat, rel_oid tbl = indrelid ix,
         am \<leftarrow> access_methods cat, am_oid am = relam idx]"
  let ?m = "\<lambda>(ix, idx, tbl, am). map_option (\<lambda>names. (indexrelid ix, indrelid ix, names))
    (names_or_null (key_columns cat (indrelid ix) (indkey ix)))"
  have join: "left_join ?base (\<lambda>(ix, idx, tbl, am) (irel, rel, names). irel = indexrelid ix) (index_column_names cat) =
      map (\<lambda>q. (q, ?m q)) ?base"
  proof (rule left_join_unique)
    fix q assume "q \<in> set ?base"
    then obtain ix idx tbl am where q: "q = (ix, idx, tbl, am)" "ix \<in> set (indexes cat)"
      by auto
    show "filter ((\<lambda>(ix, idx, tbl, am) (irel, rel, names). irel = indexrelid ix) q) (index_column_names cat) =
        (case ?m q of None \<Rightarrow> [] | Some y \<Rightarrow> [y])"
      using index_column_names_of [OF ok q(2)] by (simp add: q(1) names_or_null_def Let_def)
  qed
  let ?json = "\<lambda>ix idx am. (indrelid ix, indexrelid ix,
      index_json cat ix idx am (names_or_null (key_columns cat (indrelid ix) (indkey ix))))"
  let ?listed = "\<lambda>tbl. \<exists>n \<in> set (namespaces cat). nsp_oid n = relnamespace tbl \<and> user_schema (nspname n)"
  let ?ams = "\<lambda>ix idx. [?json ix idx am. am \<leftarrow> access_methods cat, am_oid am = relam idx]"
  have id: "map_option (\<lambda>(irel, rel, names). names) (map_option (\<lambda>names. (a, b, names)) z) = z" for a b z
    by (simp add: option.map_comp o_def option.map_ident)
  have data: "index_data cat = concat (map (\<lambda>ix. concat (map (\<lambda>idx.
      if rel_oid idx = indexrelid ix \<and> relkind idx \<in> {CHR ''i'', CHR ''I''}
      then concat (map (\<lambda>tbl. if rel_oid tbl = indrelid ix then if ?listed tbl then ?ams ix idx else [] else []) (classes cat))
      else []) (classes cat))) (indexes cat))"
    unfolding index_data_def join
    by (simp add: map_concat concat_of_concat o_def id if_distrib [of "map _"] if_distrib [of concat] concat_guard
        del: concat_eq_Nil_conv cong: if_cong)
  have "filter (\<lambda>r. fst r = rel_oid c) (index_data cat) = concat (map (\<lambda>ix. if indrelid ix = rel_oid c then
      concat (map (\<lambda>idx. if rel_oid idx = indexrelid ix \<and> relkind idx \<in> {CHR ''i'', CHR ''I''} then ?ams ix idx else [])
        (classes cat)) else []) (indexes cat))"
    unfolding data filter_concat map_map o_def
  proof (intro arg_cong [of _ _ concat] map_cong refl)
    fix ix
    let ?keep = "filter (\<lambda>r. fst r = rel_oid c)"
    show "concat (map (\<lambda>idx. ?keep (if rel_oid idx = indexrelid ix \<and> relkind idx \<in> {CHR ''i'', CHR ''I''}
        then concat (map (\<lambda>tbl. if rel_oid tbl = indrelid ix then if ?listed tbl then ?ams ix idx else [] else []) (classes cat))
        else [])) (classes cat)) = (if indrelid ix = rel_oid c then
      concat (map (\<lambda>idx. if rel_oid idx = indexrelid ix \<and> relkind idx \<in> {CHR ''i'', CHR ''I''} then ?ams ix idx else [])
        (classes cat)) else [])"
    proof (cases "indrelid ix = rel_oid c")
      case True
      have "?keep (concat (map (\<lambda>tbl. if rel_oid tbl = indrelid ix then if ?listed tbl then ?ams ix idx else [] else [])
          (classes cat))) = ?ams ix idx" for idx
      proof -
        have "concat (map (\<lambda>tbl. if rel_oid tbl = rel_oid c then if ?listed tbl then ?ams ix idx else [] else [])
          (classes cat)) = (if ?listed c then ?ams ix idx else [])"
          using ok c by (intro concat_unique) (auto simp: catalog_ok_def)
        moreover have "?keep (?ams ix idx) = ?ams ix idx"
          using True by (auto intro!: filter_True)
        ultimately show ?thesis
          using n unfolding True by auto
      qed
      with True show ?thesis
        by (simp add: if_distrib [of "filter _"] cong: if_cong)
    next
      case False
      then show ?thesis
        by (auto simp: filter_empty_conv split: if_splits)
    qed
  qed
  then show ?thesis
    by (simp add: table_indexes_def map_concat o_def if_distrib [of "map _"] cong: if_cong)
qed

text \<open>The statement without joins and aggregates: one row per listed table.\<close>

definition table_constraints :: "catalog \<Rightarrow> pg_class \<Rightarrow> pg_constraint list" where
  "table_constraints cat c = [con \<leftarrow> constraints cat. contype con \<in> set ''pufcx'' \<and> conrelid con = rel_oid c]"

definition table_parents :: "catalog \<Rightarrow> pg_class \<Rightarrow> pg_inherits list" where
  "table_parents cat c = sort_key inhseqno [inh \<leftarrow> inherits cat. inhrelid inh = rel_oid c]"

definition listed_tables :: "catalog \<Rightarrow> (pg_class \<times> pg_namespace) list" where
  "listed_tables cat =
     [(c, n). c \<leftarrow> classes cat, n \<leftarrow> namespaces cat,
      nsp_oid n = relnamespace c \<and> relkind c \<in> {CHR ''r'', CHR ''p''} \<and> user_schema (nspname n)]"

definition agg :: "json list \<Rightarrow> json option" where
  "agg js = (if js = [] then None else Some (JArr js))"

definition table_result_of :: "catalog \<Rightarrow> pg_class \<times> pg_namespace \<Rightarrow> table_result" where
  "table_result_of cat q = (case q of (c, n) \<Rightarrow>
     \<lparr>r_oid = rel_oid c, r_name = relname c, r_schema = nspname n,
      r_owner = pg_get_userbyid cat (relowner c), r_comment = obj_description cat (rel_oid c),
      r_stats = stats_json cat c, r_columns = table_columns cat c,
      r_indexes = agg (map (\<lambda>(ix, idx, am). index_json cat ix idx am
        (names_or_null (key_columns cat (indrelid ix) (indkey ix)))) (table_indexes cat c)),
      r_constraints = agg (map (constraint_json cat) (table_constraints cat c)),
      r_inheritance = JObj [(''parent_tables'', case agg (map (parent_json cat) (table_parents cat c)) of
        None \<Rightarrow> JNull | Some j \<Rightarrow> j)]\<rparr>)"

lemma sort_key_Nil_iff: "sort_key f xs = [] \<longleftrightarrow> xs = []"
  by (metis length_0_conv length_sort)

lemma concat_map_guarded:
  "(\<And>x. x \<in> set xs \<Longrightarrow> P x \<Longrightarrow> f x = g x) \<Longrightarrow>
    concat (map (\<lambda>x. if P x then [f x] else []) xs) = map g (filter P xs)"
  by (induction xs) auto

lemma queryTables_eq:
  assumes ok: "catalog_ok cat"
  shows "queryTables cat = sort_key (\<lambda>r. (r_schema r, r_name r)) (map (table_result_of cat) (listed_tables cat))"
proof -
  let ?base = "[(c, n). c \<leftarrow> classes cat, n \<leftarrow> namespaces cat, nsp_oid n = relnamespace c]"
  let ?keep = "\<lambda>(c, n). relkind c \<in> {CHR ''r'', CHR ''p''} \<and> user_schema (nspname n)"
  have ia: "left_join ?base (\<lambda>(c, n) (t, j). t = rel_oid c) (index_agg cat) =
      map (\<lambda>x. (x, let rows = filter (\<lambda>y. fst y = rel_oid (fst x)) (index_data cat) in
        if rows = [] then None else Some (rel_oid (fst x), JArr (map (\<lambda>(t, i, j). j) rows)))) ?base"
    unfolding index_agg_def by (rule left_join_groups) auto
  have cd: "left_join xs (\<lambda>((c, n), ia) (t, j). t = rel_oid c) (constraint_data cat) =
      map (\<lambda>x. (x, let rows = filter (\<lambda>y. conrelid y = rel_oid (fst (fst x))) [con \<leftarrow> constraints cat. contype con \<in> set ''pufcx''] in
        if rows = [] then None else Some (rel_oid (fst (fst x)), JArr (map (constraint_json cat) rows)))) xs"
    for xs :: "((pg_class \<times> pg_namespace) \<times> (oid \<times> json) option) list"
    unfolding constraint_data_def by (rule left_join_groups) auto
  have ip: "left_join xs (\<lambda>(((c, n), ia), cd) (t, j). t = rel_oid c) (inheritance_parents cat) =
      map (\<lambda>x. (x, let rows = filter (\<lambda>y. inhrelid y = rel_oid (fst (fst (fst x)))) (inherits cat) in
        if rows = [] then None else Some (rel_oid (fst (fst (fst x))), JArr (map (parent_json cat) (sort_key inhseqno rows))))) xs"
    for xs :: "(((pg_class \<times> pg_namespace) \<times> (oid \<times> json) option) \<times> (oid \<times> json) option) list"
    unfolding inheritance_parents_def by (rule left_join_groups) auto
  have listed: "listed_tables cat = filter ?keep ?base"
    by (simp add: listed_tables_def filter_concat map_concat o_def if_distrib [of "filter _"] cong: if_cong)
      (intro arg_cong [of _ _ concat] map_cong refl; simp)
  show ?thesis
    unfolding queryTables_def listed ia cd ip
    unfolding map_map o_def case_prod_unfold fst_conv snd_conv
  proof (intro arg_cong [of _ _ "sort_key _"] concat_map_guarded, goal_cases)
    case (1 x)
    then obtain c n where x: "x = (c, n)" "c \<in> set (classes cat)" "n \<in> set (namespaces cat)" "nsp_oid n = relnamespace c"
      "user_schema (nspname n)"
      by auto
    note idx = index_data_of [OF ok x(2-5)]
    show ?case
      unfolding x(1) fst_conv snd_conv idx table_result_of_def
      by (simp add: agg_def table_constraints_def table_parents_def Let_def o_def case_prod_unfold
        sort_key_Nil_iff)
  qed
qed

end
