(* ===== verification/Pg_Table_Catalog.thy ===== *)
theory Pg_Table_Catalog
  imports Pg_Table_Query
begin

text \<open>
  What the table worker makes of the catalog. \<open>catalog_table\<close> says directly from the catalog what should be
  reported of a table; the documents that \<open>queryTables\<close> builds represent exactly that, so the worker
  decodes every row into the \<open>catalog_table\<close> of a listed table (\<open>table_row_delivered\<close>), without an error
  and without nil pointers.
\<close>

section \<open>The tables of the catalog\<close>

text \<open>What the program should report of a table, directly from the catalog.\<close>

definition size_of :: "int option \<Rightarrow> u64" where
  "size_of n = word_of_int (case n of None \<Rightarrow> 0 | Some i \<Rightarrow> i)"

definition catalog_stats :: "catalog \<Rightarrow> pg_class \<Rightarrow> TableStats" where
  "catalog_stats cat c =
     \<lparr>ts_RowEstimate = word_of_int (reltuples c),
      ts_TotalSizeBytes = size_of (pg_total_relation_size cat (rel_oid c)),
      ts_HeapSizeBytes = size_of (pg_relation_size cat (rel_oid c)),
      ts_ToastSizeBytes = size_of (pg_relation_size cat (reltoastrelid c))\<rparr>"

definition catalog_column :: "catalog \<Rightarrow> pg_attribute \<Rightarrow> TableColumn" where
  "catalog_column cat a =
     \<lparr>tc_Name = attname a, tc_Type = format_type cat (atttypid a) (Some (atttypmod a)),
      tc_NotNull = attnotnull a, tc_IsInherited = (attinhcount a > 0)\<rparr>"

definition catalog_index :: "catalog \<Rightarrow> pg_index \<times> pg_class \<times> pg_am \<Rightarrow> TableIndex" where
  "catalog_index cat q = (case q of (ix, idx, am) \<Rightarrow>
     \<lparr>ix_Name = relname idx, ix_Type = amname am, ix_Definition = pg_get_indexdef cat (indexrelid ix),
      ix_Columns = key_columns cat (indrelid ix) (indkey ix),
      ix_SizeBytes = size_of (pg_relation_size cat (indexrelid ix)),
      ix_IsUnique = indisunique ix, ix_IsPrimary = indisprimary ix, ix_IsExclusion = indisexclusion ix,
      ix_IsPartial = (indpred ix \<noteq> None), ix_IsValid = indisvalid ix,
      ix_IsInherited = (\<exists>inh \<in> set (inherits cat). inhrelid inh = indexrelid ix)\<rparr>)"

definition constraint_kind :: "char \<Rightarrow> string" where
  "constraint_kind c = (case map_of [(CHR ''p'', ''primary_key''), (CHR ''u'', ''unique''),
     (CHR ''f'', ''foreign_key''), (CHR ''c'', ''check''), (CHR ''x'', ''exclusion'')] c of
     None \<Rightarrow> [] | Some s \<Rightarrow> s)"

definition catalog_constraint :: "catalog \<Rightarrow> pg_constraint \<Rightarrow> TableConstraint" where
  "catalog_constraint cat con = (let foreign = (contype con = CHR ''f'') in
     \<lparr>con_Name = conname con, con_Type = constraint_kind (contype con),
      con_ForeignTable = (if foreign then regclass_text cat (confrelid con) else []),
      con_Definition = pg_get_constraintdef cat (con_oid con),
      con_LocalColumns = key_columns cat (conrelid con) (conkey con),
      con_ForeignColumns = (if foreign then key_columns cat (confrelid con) (confkey con) else [])\<rparr>)"

definition catalog_parent :: "catalog \<Rightarrow> pg_inherits \<Rightarrow> InheritanceRelation" where
  "catalog_parent cat inh = \<lparr>ir_Name = regclass_text cat (inhparent inh), ir_Oid = inhparent inh\<rparr>"

definition table_attributes :: "catalog \<Rightarrow> pg_class \<Rightarrow> pg_attribute list" where
  "table_attributes cat c = sort_key attnum
     [a \<leftarrow> attributes cat. attrelid a = rel_oid c \<and> attnum a > 0 \<and> \<not> attisdropped a]"

definition catalog_table :: "catalog \<Rightarrow> pg_class \<times> pg_namespace \<Rightarrow> Table" where
  "catalog_table cat q = (case q of (c, n) \<Rightarrow>
     \<lparr>tb_Name = relname c, tb_Schema = nspname n, tb_Owner = pg_get_userbyid cat (relowner c),
      tb_Comment = obj_description cat (rel_oid c),
      tb_TableColumns = map (\<lambda>a. Some (catalog_column cat a)) (table_attributes cat c),
      tb_TableIndexes = map (\<lambda>q. Some (catalog_index cat q)) (table_indexes cat c),
      tb_TableConstraints = map (\<lambda>con. Some (catalog_constraint cat con)) (table_constraints cat c),
      tb_Inheritance = \<lparr>ti_ParentTables = map (\<lambda>inh. Some (catalog_parent cat inh)) (table_parents cat c)\<rparr>,
      tb_Stats = catalog_stats cat c, tb_Oid = rel_oid c\<rparr>)"

text \<open>Sizes are not negative and fit into a bigint.\<close>

definition sizes_ok :: "catalog \<Rightarrow> bool" where
  "sizes_ok cat \<longleftrightarrow> (\<forall>c \<in> set (classes cat). - (2 ^ 63) \<le> reltuples c \<and> reltuples c < 2 ^ 63) \<and>
     (\<forall>rel n. pg_relation_size cat rel = Some n \<or> pg_total_relation_size cat rel = Some n \<longrightarrow> 0 \<le> n \<and> n < 2 ^ 63)"

section \<open>The documents represent the tables\<close>

lemma represents_names: "represents (GSlice GString) (slice_to VString names) (json_names names)"
proof (cases "names = []")
  case True
  then show ?thesis
    using rep_null [of "GSlice GString"] by (simp add: json_names_def slice_to_def)
next
  case False
  then show ?thesis
    by (auto simp: json_names_def slice_to_def list.rel_map represents_slice_iff intro!: list.rel_refl_strong rep_string)
qed

lemma represents_uint:
  assumes "0 \<le> i" "i < 2 ^ 63"
  shows "represents (GUint 64) (uint_to (word_of_int i :: u64)) (JNum (show_int i))"
proof -
  have "ParseUint (show_int i) = Some (nat i)" "int (nat i) = i"
    using assms by (auto simp: show_int_def ParseUint_show_nat)
  moreover have "uint (word_of_int i :: u64) = i"
    using assms by (simp add: uint_word_of_int take_bit_int_eq_self)
  ultimately show ?thesis
    using assms rep_uint [of "show_int i" "nat i" 64] by (simp add: uint_to_def in_uint_def)
qed

lemma represents_size:
  assumes "\<And>i. n = Some i \<Longrightarrow> 0 \<le> i \<and> i < 2 ^ 63"
  shows "represents (GUint 64) (uint_to (size_of n)) (json_bigint n)"
proof (cases n)
  case None
  then show ?thesis
    using rep_null [of "GUint 64"] by (simp add: json_bigint_def size_of_def uint_to_def)
next
  case (Some i)
  then show ?thesis
    using represents_uint assms by (simp add: json_bigint_def size_of_def)
qed

lemma represents_column: "represents TableColumn_type (TableColumn_to (catalog_column cat a)) (column_json cat a)"
  unfolding TableColumn_type_def TableColumn_to_def catalog_column_def column_json_def
  by (rule represents_objI) (simp_all add: represents_scalar_simps foldName.simps upper_byte_def is_lower_def)

lemma represents_index:
  assumes "sizes_ok cat"
  shows "represents TableIndex_type (TableIndex_to (catalog_index cat (ix, idx, am)))
    (index_json cat ix idx am (names_or_null (key_columns cat (indrelid ix) (indkey ix))))"
proof -
  have "represents (GUint 64) (uint_to (size_of (pg_relation_size cat (indexrelid ix))))
      (json_bigint (pg_relation_size cat (indexrelid ix)))"
    using assms by (intro represents_size) (auto simp: sizes_ok_def)
  moreover have "(case names_or_null names of None \<Rightarrow> JNull | Some ns \<Rightarrow> JArr (map JStr ns)) = json_names names" for names
    by (simp add: names_or_null_def json_names_def)
  ultimately show ?thesis
    unfolding TableIndex_type_def TableIndex_to_def catalog_index_def index_json_def
    by (intro represents_objI) (simp_all add: represents_scalar_simps represents_names foldName.simps upper_byte_def is_lower_def)
qed

lemma represents_constraint:
  assumes "contype con \<in> set ''pufcx''"
  shows "represents TableConstraint_type (TableConstraint_to (catalog_constraint cat con)) (constraint_json cat con)"
proof -
  have null: "represents GString (VString []) JNull" "represents (GSlice GString) (slice_to VString []) JNull"
    using rep_null [of GString] rep_null [of "GSlice GString"] by (simp_all add: slice_to_def)
  have kind: "constraint_type (contype con) = JStr (constraint_kind (contype con))"
    using assms by (auto simp: constraint_type_def constraint_kind_def)
  show ?thesis
    unfolding TableConstraint_type_def TableConstraint_to_def constraint_json_def kind
    by (rule represents_objI)
      (simp_all add: catalog_constraint_def Let_def rep_string null represents_names foldName.simps upper_byte_def is_lower_def)
qed

lemma represents_parent: "represents InheritanceRelation_type (InheritanceRelation_to (catalog_parent cat inh)) (parent_json cat inh)"
proof -
  let ?i = "uint (inhparent inh)"
  have "ParseUint (show_int ?i) = Some (nat ?i)"
    by (simp add: show_int_def ParseUint_show_nat)
  then have "represents (GUint 32) (uint_to (inhparent inh)) (JNum (show_int ?i))"
    using rep_uint [of "show_int ?i" "nat ?i" 32] uint_lt2p [of "inhparent inh"] by (simp add: uint_to_def in_uint_def)
  then show ?thesis
    unfolding InheritanceRelation_type_def InheritanceRelation_to_def parent_json_def catalog_parent_def
    by (intro represents_objI) (simp_all add: rep_string foldName.simps upper_byte_def is_lower_def)
qed

lemma represents_stats:
  assumes "sizes_ok cat" "c \<in> set (classes cat)"
  shows "represents TableStats_type (TableStats_to (catalog_stats cat c)) (stats_json cat c)"
proof -
  have rows: "represents (GInt 64) (sint_to (word_of_int (reltuples c) :: i64)) (JNum (show_int (reltuples c)))"
    using assms rep_int [OF ParseInt_show_int, of 64 "reltuples c"]
    by (simp add: sizes_ok_def sint_to_def in_int_def sint_sbintrunc' signed_take_bit_int_eq_self)
  have "represents (GUint 64) (uint_to (size_of (pg_relation_size cat (reltoastrelid c))))
      (JNum (show_int (case pg_relation_size cat (reltoastrelid c) of None \<Rightarrow> 0 | Some n \<Rightarrow> n)))"
    unfolding size_of_def using assms(1) by (intro represents_uint) (auto simp: sizes_ok_def split: option.splits)
  moreover have "represents (GUint 64) (uint_to (size_of (pg_relation_size cat rel))) (json_bigint (pg_relation_size cat rel))"
    "represents (GUint 64) (uint_to (size_of (pg_total_relation_size cat rel))) (json_bigint (pg_total_relation_size cat rel))" for rel
    using assms(1) by (auto intro!: represents_size simp: sizes_ok_def)
  ultimately show ?thesis
    unfolding TableStats_type_def TableStats_to_def catalog_stats_def stats_json_def using rows
    by (intro represents_objI) (simp_all add: foldName.simps upper_byte_def is_lower_def)
qed

lemma represents_pointers:
  assumes "\<And>y. y \<in> set ys \<Longrightarrow> represents t (to (g y)) (f y) \<and> f y \<noteq> JNull"
  shows "represents (GSlice (GPtr t)) (slice_to (ptr_to to) (map (\<lambda>y. Some (g y)) ys)) (JArr (map f ys))"
  using assms by (auto simp: slice_to_def ptr_to_def represents_slice_iff represents_ptr_iff list.rel_map
      intro!: list.rel_refl_strong)

section \<open>From the rows to the tables\<close>

lemma no_dups_documents:
  "no_dups (column_json cat a)" "no_dups (index_json cat ix idx am names)" "no_dups (constraint_json cat con)"
  "no_dups (parent_json cat inh)" "no_dups (stats_json cat c)"
  by (simp_all add: column_json_def index_json_def constraint_json_def parent_json_def stats_json_def
      json_names_def json_bigint_def constraint_type_def foldName.simps upper_byte_def is_lower_def list_all_iff
      split: option.splits)

lemma documents_not_null:
  "column_json cat a \<noteq> JNull" "index_json cat ix idx am names \<noteq> JNull" "constraint_json cat con \<noteq> JNull"
  "parent_json cat inh \<noteq> JNull"
  by (simp_all add: column_json_def index_json_def constraint_json_def parent_json_def)

lemma single_names_Nil: "single_names []"
  by (simp add: single_names_def parse_json_def)

lemma agg_nullable:
  assumes "rel_option jsonb_text (agg (map f ys)) d"
    and "\<And>y. y \<in> set ys \<Longrightarrow> represents t (to (g y)) (f y) \<and> f y \<noteq> JNull \<and> no_dups (f y)"
  shows "describes_nullable (GSlice (GPtr t)) (slice_to (ptr_to to)) (map (\<lambda>y. Some (g y)) ys) d"
    and "single_names (bytes d)"
proof -
  have nd: "no_dups (JArr (map f ys))"
    using assms(2) by (auto simp: list_all_iff)
  have rep: "represents (GSlice (GPtr t)) (slice_to (ptr_to to) (map (\<lambda>y. Some (g y)) ys)) (JArr (map f ys))"
    using assms(2) by (intro represents_pointers) auto
  have "describes_nullable (GSlice (GPtr t)) (slice_to (ptr_to to)) (map (\<lambda>y. Some (g y)) ys) d \<and>
      single_names (bytes d)"
  proof (cases d)
    case None
    then have "ys = []"
      using assms(1) by (simp add: agg_def split: if_splits)
    with None show ?thesis
      by (simp add: describes_nullable_def bytes_def single_names_Nil)
  next
    case (Some doc)
    then have "jsonb_text (JArr (map f ys)) doc"
      using assms(1) by (simp add: agg_def split: if_splits)
    with Some rep nd show ?thesis
      by (simp add: describes_nullable_def bytes_def describes_jsonb single_names_jsonb del: no_dups.simps)
  qed
  then show "describes_nullable (GSlice (GPtr t)) (slice_to (ptr_to to)) (map (\<lambda>y. Some (g y)) ys) d"
    "single_names (bytes d)"
    by simp_all
qed

text \<open>The driver delivers a row of the statement: the columns, and a text for every document.\<close>

definition delivers :: "'raw pgx \<Rightarrow> 'raw \<Rightarrow> table_result \<Rightarrow> bool" where
  "delivers x r q \<longleftrightarrow> (\<exists>stats cols idxs cons inh.
     pgx_ScanTable x r = Inr (r_oid q, r_name q, r_schema q, r_owner q, r_comment q,
       Some stats, cols, idxs, cons, Some inh) \<and>
     jsonb_text (r_stats q) stats \<and> rel_option jsonb_text (r_columns q) cols \<and>
     rel_option jsonb_text (r_indexes q) idxs \<and> rel_option jsonb_text (r_constraints q) cons \<and>
     jsonb_text (r_inheritance q) inh)"

lemma table_columns_agg: "table_columns cat c = agg (map (column_json cat) (table_attributes cat c))"
  by (simp add: table_columns_def agg_def table_attributes_def Let_def sort_key_Nil_iff)

lemma inheritance_document:
  assumes "jsonb_text (JObj [(''parent_tables'', case agg (map (parent_json cat) parents) of None \<Rightarrow> JNull | Some j \<Rightarrow> j)]) d"
  shows "describes TableInheritance_type
      (TableInheritance_to \<lparr>ti_ParentTables = map (\<lambda>inh. Some (catalog_parent cat inh)) parents\<rparr>) d"
    and "single_names d"
proof -
  let ?j = "case agg (map (parent_json cat) parents) of None \<Rightarrow> JNull | Some j \<Rightarrow> j"
  let ?t = "GSlice (GPtr InheritanceRelation_type)"
  let ?v = "slice_to (ptr_to InheritanceRelation_to) (map (\<lambda>inh. Some (catalog_parent cat inh)) parents)"
  have "represents ?t ?v ?j"
  proof (cases "parents = []")
    case True
    then show ?thesis
      using rep_null [of ?t] by (simp add: agg_def slice_to_def)
  next
    case False
    then show ?thesis
      using represents_pointers [of parents InheritanceRelation_type InheritanceRelation_to "catalog_parent cat" "parent_json cat"]
      by (simp add: agg_def represents_parent documents_not_null)
  qed
  then have "represents TableInheritance_type
      (TableInheritance_to \<lparr>ti_ParentTables = map (\<lambda>inh. Some (catalog_parent cat inh)) parents\<rparr>) (JObj [(''parent_tables'', ?j)])"
    unfolding TableInheritance_type_def TableInheritance_to_def by (intro represents_objI) simp_all
  with assms show "describes TableInheritance_type
      (TableInheritance_to \<lparr>ti_ParentTables = map (\<lambda>inh. Some (catalog_parent cat inh)) parents\<rparr>) d"
    by (rule describes_jsonb)
  have "no_dups ?j"
    by (simp add: agg_def list_all_iff no_dups_documents)
  then have "no_dups (JObj [(''parent_tables'', ?j)])" by simp
  with assms show "single_names d"
    by (rule single_names_jsonb)
qed

lemma table_row_delivered:
  assumes "delivers x r (table_result_of cat (c, n))" "sizes_ok cat" "c \<in> set (classes cat)"
  shows "table_row x d r = Inr (catalog_table cat (c, n))"
proof -
  let ?q = "table_result_of cat (c, n)"
  obtain stats cols idxs cons inh where
    scan: "pgx_ScanTable x r = Inr (r_oid ?q, r_name ?q, r_schema ?q, r_owner ?q, r_comment ?q,
       Some stats, cols, idxs, cons, Some inh)"
    and texts: "jsonb_text (r_stats ?q) stats" "rel_option jsonb_text (r_columns ?q) cols"
      "rel_option jsonb_text (r_indexes ?q) idxs" "rel_option jsonb_text (r_constraints ?q) cons"
      "jsonb_text (r_inheritance ?q) inh"
    using assms(1) unfolding delivers_def by blast
  have stats: "describes TableStats_type (TableStats_to (catalog_stats cat c)) stats" "single_names stats"
    using texts(1) describes_jsonb [OF _ represents_stats [OF assms(2,3)]] single_names_jsonb no_dups_documents(5)
    by (auto simp: table_result_of_def)
  have cols: "rel_option jsonb_text (agg (map (column_json cat) (table_attributes cat c))) cols"
    using texts(2) by (simp add: table_result_of_def table_columns_agg)
  have idxs: "rel_option jsonb_text (agg (map (\<lambda>(ix, idx, am). index_json cat ix idx am
        (names_or_null (key_columns cat (indrelid ix) (indkey ix)))) (table_indexes cat c))) idxs"
    using texts(3) by (simp add: table_result_of_def)
  have cons: "rel_option jsonb_text (agg (map (constraint_json cat) (table_constraints cat c))) cons"
    using texts(4) by (simp add: table_result_of_def)
  note columns = agg_nullable [OF cols, of TableColumn_type TableColumn_to "catalog_column cat"]
  note indexes = agg_nullable [OF idxs, of TableIndex_type TableIndex_to "catalog_index cat"]
  note constraints = agg_nullable [OF cons, of TableConstraint_type TableConstraint_to "catalog_constraint cat"]
  have con: "contype con \<in> set ''pufcx''" if "con \<in> set (table_constraints cat c)" for con
    using that by (simp add: table_constraints_def)
  have inh: "jsonb_text (JObj [(''parent_tables'',
      case agg (map (parent_json cat) (table_parents cat c)) of None \<Rightarrow> JNull | Some j \<Rightarrow> j)]) inh"
    using texts(5) by (simp add: table_result_of_def)
  have ix: "represents TableIndex_type (TableIndex_to (catalog_index cat y)) (case y of (ix, idx, am) \<Rightarrow> index_json cat ix idx am
        (names_or_null (key_columns cat (indrelid ix) (indkey ix)))) \<and>
      (case y of (ix, idx, am) \<Rightarrow> index_json cat ix idx am (names_or_null (key_columns cat (indrelid ix) (indkey ix)))) \<noteq> JNull \<and>
      no_dups (case y of (ix, idx, am) \<Rightarrow> index_json cat ix idx am (names_or_null (key_columns cat (indrelid ix) (indkey ix))))" for y
    using represents_index [OF assms(2)] no_dups_documents documents_not_null by (cases y) auto
  show ?thesis
    using table_row_Inr_iff [OF scan, of d "catalog_table cat (c, n)"] stats columns indexes constraints
      inheritance_document [OF inh] represents_column represents_constraint con ix no_dups_documents documents_not_null
    by (simp add: catalog_table_def table_result_of_def bytes_def [of "Some _"])
qed

end
