(* ===== verification/Pg_Catalog_Server.thy ===== *)
theory Pg_Catalog_Server
  imports Pg_Table_Catalog
begin

text \<open>
  The lists of the store when the server answers from its catalogs: the contract \<open>table_driver\<close> of the
  driver (it extends \<open>catalog_driver\<close>), the concrete driver \<open>catalog_pgx\<close> that answers every statement from
  a catalog and fulfils the contract, and the theorems on what the lists contain.
\<close>

section \<open>The contract\<close>

definition catalog_tables :: "catalog \<Rightarrow> Table list" where
  "catalog_tables cat =
     map (catalog_table cat) (sort_key (\<lambda>(c, n). (nspname n, relname c)) (listed_tables cat))"

lemma queryTables_sorted:
  assumes "catalog_ok cat"
  shows "queryTables cat =
    map (table_result_of cat) (sort_key (\<lambda>(c, n). (nspname n, relname c)) (listed_tables cat))"
proof -
  have "(\<lambda>q. (r_schema (table_result_of cat q), r_name (table_result_of cat q))) =
      (\<lambda>(c, n). (nspname n, relname c))"
    by (auto simp: table_result_of_def)
  then show ?thesis
    unfolding queryTables_eq [OF assms] sort_key_map by simp
qed

lemma list_all2_map_eq:
  "list_all2 R xs ys \<Longrightarrow> (\<And>x y. y \<in> set ys \<Longrightarrow> R x y \<Longrightarrow> f x = g y) \<Longrightarrow> map f xs = map g ys"
  by (induction rule: list_all2_induct) auto

locale table_driver = catalog_driver x cat
  for x :: "'raw pgx" and cat :: "string \<Rightarrow> catalog" +
  assumes scan_tables: "pgx_Query x p SqlTables = Inr rows \<Longrightarrow> rw_err rows = None \<Longrightarrow>
    list_all2 (delivers x) (rw_rows rows) (queryTables (cat p))"
begin

lemma table_rows:
  assumes "pgx_Query x p SqlTables = Inr rows" "rw_err rows = None" "catalog_ok (cat p)" "sizes_ok (cat p)"
  shows "map (table_row x d) (rw_rows rows) = map Inr (catalog_tables (cat p))"
proof -
  let ?qs = "sort_key (\<lambda>(c, n). (nspname n, relname c)) (listed_tables (cat p))"
  have "list_all2 (delivers x) (rw_rows rows) (map (table_result_of (cat p)) ?qs)"
    using scan_tables [OF assms(1,2)] by (simp only: queryTables_sorted [OF assms(3)])
  moreover have "table_row x d r = Inr (catalog_table (cat p) q)"
    if q: "q \<in> set ?qs" "delivers x r (table_result_of (cat p) q)" for q r
  proof -
    obtain c n where "q = (c, n)" "c \<in> set (classes (cat p))"
      using q(1) by (auto simp: listed_tables_def)
    with q(2) assms(4) show ?thesis
      by (auto intro: table_row_delivered)
  qed
  ultimately show ?thesis
    unfolding catalog_tables_def list_all2_map2 map_map o_def by (rule list_all2_map_eq)
qed

lemma tables_worker_result:
  assumes "acq d = None" "pgx_New x (st_connStrFor s d) = None"
    and "pgx_Query x (st_connStrFor s d) SqlTables = Inr rows" "rw_err rows = None"
    and "catalog_ok (cat (st_connStrFor s d))" "sizes_ok (cat (st_connStrFor s d))"
  shows "snd (listTablesForDatabase x s acq d) =
    Inr [\<lparr>tbi_Database = d, tbi_Tables = catalog_tables (cat (st_connStrFor s d))\<rparr>]"
  unfolding listTablesForDatabase_def with_database_Inr_iff read_tables_Inr_iff
  using assms table_rows [OF assms(3-6)] by auto

lemma tables_worker_rows:
  assumes "snd (listTablesForDatabase x s acq d) = Inr infos"
    and "catalog_ok (cat (st_connStrFor s d))" "sizes_ok (cat (st_connStrFor s d))"
  shows "infos = [\<lparr>tbi_Database = d, tbi_Tables = catalog_tables (cat (st_connStrFor s d))\<rparr>]"
proof -
  obtain rows where "acq d = None" "pgx_New x (st_connStrFor s d) = None"
    "pgx_Query x (st_connStrFor s d) SqlTables = Inr rows" "rw_err rows = None"
    using assms(1) by (auto simp: listTablesForDatabase_def with_database_Inr_iff read_tables_Inr_iff)
  then show ?thesis
    using tables_worker_result [of acq d s rows] assms by simp
qed

lemma ListTables_rows:
  assumes "pgx_Query x (st_pool s) SqlDatabases = Inr rows" "rw_err rows = None"
    and "is_schedule sched (connectable (cat (st_pool s)))" "ListTables x s acq sched = Inr infos"
    and "\<forall>d \<in> set (connectable (cat (st_pool s))). catalog_ok (cat (st_connStrFor s d)) \<and> sizes_ok (cat (st_connStrFor s d))"
  shows "mset infos = mset (map (\<lambda>d. \<lparr>tbi_Database = d, tbi_Tables = catalog_tables (cat (st_connStrFor s d))\<rparr>)
    (connectable (cat (st_pool s))))"
proof -
  let ?entry = "\<lambda>d. [\<lparr>tbi_Database = d, tbi_Tables = catalog_tables (cat (st_connStrFor s d))\<rparr>]"
  let ?w = "\<lambda>d. snd (listTablesForDatabase x s acq d)"
  obtain dbs where dbs: "snd (ListDatabases x s) = Inr dbs" "forEachDatabase sched dbs ?w = Inr infos"
    using assms(4) by (auto simp: ListTables_def split: sum.splits)
  have names: "map db_Name dbs = connectable (cat (st_pool s))"
    by (rule database_names [OF assms(1,2) dbs(1)])
  let ?w' = "\<lambda>d. if d \<in> set (connectable (cat (st_pool s))) then ?w d else Inl (ErrorString [])"
  have sched: "is_schedule sched dbs"
    using assms(3) names by (metis is_schedule_def length_map)
  have "map (\<lambda>db. ?w (db_Name db)) (arrival sched dbs) = map (\<lambda>db. ?w' (db_Name db)) (arrival sched dbs)"
    using set_arrival [OF sched] names by (intro map_cong refl) (metis (no_types, lifting) image_eqI list.set_map)
  then have "forEachDatabase sched dbs ?w' = Inr infos"
    using dbs(2) unfolding forEachDatabase_Inr_iff by metis
  then have "mset (map (\<lambda>i. i) infos) = mset (concat (map ?entry (connectable (cat (st_pool s)))))"
    by (rule aggregated_rows [OF assms(1-3) dbs(1)])
      (use assms(5) tables_worker_rows in \<open>auto split: if_splits\<close>)
  then show ?thesis
    by (simp add: concat_map_singleton)
qed

end

section \<open>A server that answers from its catalogs\<close>

text \<open>The driver of a server without failures. A catalog that is not UTF-8 has no JSON text: the server
  answers the table statement with an error.\<close>

datatype catalog_row =
    DatabaseRow "string \<times> oid"
  | AvailableRow "string \<times> string option"
  | InstalledRow "oid \<times> string \<times> string \<times> string"
  | SchemaRow "oid \<times> string \<times> string"
  | SequenceRow "oid \<times> string \<times> string \<times> string \<times> string"
  | FunctionRow "oid \<times> string \<times> string \<times> string \<times> string \<times> string \<times> string"
  | TableRow table_result

definition encodable :: "json \<Rightarrow> bool" where
  "encodable j \<longleftrightarrow> parse_json (show_json j) = Some j"

definition encodable_row :: "table_result \<Rightarrow> bool" where
  "encodable_row q \<longleftrightarrow> encodable (r_stats q) \<and> pred_option encodable (r_columns q) \<and>
     pred_option encodable (r_indexes q) \<and> pred_option encodable (r_constraints q) \<and> encodable (r_inheritance q)"

definition wrong_row :: "'a go" where
  "wrong_row = Inl (ErrorString ''cannot scan'')"

definition first_row :: "string list \<Rightarrow> string go" where
  "first_row rows = (case rows of [] \<Rightarrow> Inl (ErrorString ''no rows in result set'') | v # vs \<Rightarrow> Inr v)"

definition catalog_pgx :: "(string \<Rightarrow> catalog) \<Rightarrow> catalog_row pgx" where
  "catalog_pgx cat = \<lparr>
     pgx_New = (\<lambda>p. None),
     pgx_Query = (\<lambda>p q.
       let answer = (\<lambda>rows. Inr \<lparr>rw_rows = rows, rw_err = None\<rparr>) in
       case q of
         SqlDatabases \<Rightarrow> answer (map DatabaseRow (queryDatabases (cat p)))
       | SqlAvailableExtensions \<Rightarrow> answer (map AvailableRow (queryAvailableExtensions (cat p)))
       | SqlInstalledExtensions \<Rightarrow> answer (map InstalledRow (queryListInstalledExtensions (cat p)))
       | SqlSchemas \<Rightarrow> answer (map SchemaRow (queryListSchemas (cat p)))
       | SqlSequences \<Rightarrow> answer (map SequenceRow (querySequences (cat p)))
       | SqlFunctions \<Rightarrow> answer (map FunctionRow (queryFunctions (cat p)))
       | SqlTables \<Rightarrow> if list_all encodable_row (queryTables (cat p)) then answer (map TableRow (queryTables (cat p)))
                      else Inl (ErrorString ''invalid byte sequence for encoding'')
       | _ \<Rightarrow> Inl (ErrorString ''not a query for rows'')),
     pgx_QueryText = (\<lambda>p q. case q of
         SqlStanza \<Rightarrow> first_row (queryClusterConfig ''stanza'' (cat p))
       | SqlClusterName \<Rightarrow> first_row (queryClusterConfig ''cluster_name'' (cat p))
       | _ \<Rightarrow> Inl (ErrorString ''not a query for a text'')),
     pgx_QueryServerInfo = (\<lambda>p q. Inl (ErrorString ''not available'')),
     pgx_ScanDatabase = (\<lambda>r. case r of DatabaseRow v \<Rightarrow> Inr v | _ \<Rightarrow> wrong_row),
     pgx_ScanAvailable = (\<lambda>r. case r of
         AvailableRow (name, version) \<Rightarrow>
           (case version of None \<Rightarrow> Inl (ErrorString ''cannot scan NULL into *string'') | Some v \<Rightarrow> Inr (name, v))
       | _ \<Rightarrow> wrong_row),
     pgx_ScanInstalled = (\<lambda>r. case r of InstalledRow v \<Rightarrow> Inr v | _ \<Rightarrow> wrong_row),
     pgx_ScanSchema = (\<lambda>r. case r of SchemaRow v \<Rightarrow> Inr v | _ \<Rightarrow> wrong_row),
     pgx_ScanSequence = (\<lambda>r. case r of SequenceRow v \<Rightarrow> Inr v | _ \<Rightarrow> wrong_row),
     pgx_ScanFunction = (\<lambda>r. case r of FunctionRow v \<Rightarrow> Inr v | _ \<Rightarrow> wrong_row),
     pgx_ScanTable = (\<lambda>r. case r of TableRow q \<Rightarrow>
         Inr (r_oid q, r_name q, r_schema q, r_owner q, r_comment q, Some (show_json (r_stats q)),
           map_option show_json (r_columns q), map_option show_json (r_indexes q),
           map_option show_json (r_constraints q), Some (show_json (r_inheritance q)))
       | _ \<Rightarrow> wrong_row)\<rparr>"

lemma jsonb_text_show: "encodable j \<Longrightarrow> jsonb_text j (show_json j)"
  using json_equiv_refl by (auto simp: jsonb_text_def encodable_def)

lemma jsonb_text_show_option: "pred_option encodable j \<Longrightarrow> rel_option jsonb_text j (map_option show_json j)"
  by (cases j) (auto intro: jsonb_text_show)

lemma catalog_pgx_delivers: "encodable_row q \<Longrightarrow> delivers (catalog_pgx cat) (TableRow q) q"
  unfolding delivers_def encodable_row_def
  by (intro exI conjI) (auto simp: catalog_pgx_def intro: jsonb_text_show jsonb_text_show_option)

lemma catalog_pgx_available: "list_all2 (available_row (catalog_pgx cat)) (map AvailableRow es) es"
  unfolding list_all2_map1
  by (rule list.rel_refl) (auto simp: available_row_def catalog_pgx_def split: option.splits)

interpretation catalog_server: table_driver "catalog_pgx cat" cat for cat
proof
  show "list_all2 (delivers (catalog_pgx cat)) (rw_rows rows) (queryTables (cat p))"
    if rows: "pgx_Query (catalog_pgx cat) p SqlTables = Inr rows" for p rows
  proof -
    have "list_all encodable_row (queryTables (cat p))" "rw_rows rows = map TableRow (queryTables (cat p))"
      using rows by (auto simp: catalog_pgx_def Let_def split: if_splits)
    then show ?thesis
      by (auto simp: list.rel_map list_all_iff intro!: list.rel_refl_strong catalog_pgx_delivers)
  qed
  show "list_all2 (available_row (catalog_pgx cat)) (rw_rows rows) (queryAvailableExtensions (cat p))"
    if rows: "pgx_Query (catalog_pgx cat) p SqlAvailableExtensions = Inr rows" for p rows
  proof -
    have "rw_rows rows = map AvailableRow (queryAvailableExtensions (cat p))"
      using rows by (auto simp: catalog_pgx_def)
    then show ?thesis
      by (simp only: catalog_pgx_available)
  qed
qed (auto simp: catalog_pgx_def Let_def first_row_def o_def split: list.splits)

section \<open>Properties\<close>

text \<open>The table worker reports the tables of the catalog. When the server answers from a catalog with
  unique oids and the rows arrive, the worker succeeds: every document is decoded without an error,
  and the result has exactly one entry per ordinary or partitioned table in a user schema, in the
  order of schema and name, with its columns in the order of the table, its indexes with their column
  names in index order, its constraints, its parents in the order of inheritance, and its sizes.\<close>

theorem tables_worker_catalog:
  assumes "table_driver x cat" "acq d = None" "pgx_New x (st_connStrFor s d) = None"
    and "pgx_Query x (st_connStrFor s d) SqlTables = Inr rows" "rw_err rows = None"
    and "catalog_ok (cat (st_connStrFor s d))" "sizes_ok (cat (st_connStrFor s d))"
  shows "snd (listTablesForDatabase x s acq d) =
    Inr [\<lparr>tbi_Database = d, tbi_Tables = catalog_tables (cat (st_connStrFor s d))\<rparr>]"
  using table_driver.tables_worker_result [of x cat acq d s rows] assms by blast

text \<open>C12: a schema that the schema list hides may have tables in the table list. The name of such a schema
  has \<open>pg\<close> before another character but is not one of the names that the table statement excludes; its
  ordinary and partitioned tables (relkind \<open>r\<close> and \<open>p\<close>) are all listed.\<close>

theorem hidden_schema_has_tables:
  assumes "catalog_ok cat" "n \<in> set (namespaces cat)" "nspname n = ''pg'' @ a # rest" "user_schema (nspname n)"
    and "c \<in> set (classes cat)" "relkind c \<in> {CHR ''r'', CHR ''p''}" "relnamespace c = nsp_oid n"
  shows "(\<exists>t \<in> set (catalog_tables cat). tb_Schema t = nspname n \<and> tb_Name t = relname c) \<and>
    (\<exists>q \<in> set (queryTables cat). r_schema q = nspname n \<and> r_name q = relname c) \<and>
    (\<forall>(oid, name, own) \<in> set (queryListSchemas cat). name \<noteq> nspname n)"
proof -
  have "(c, n) \<in> set (listed_tables cat)"
    using assms by (auto simp: listed_tables_def)
  then have "catalog_table cat (c, n) \<in> set (catalog_tables cat)" "table_result_of cat (c, n) \<in> set (queryTables cat)"
    unfolding queryTables_sorted [OF assms(1)] catalog_tables_def by auto
  moreover have "tb_Schema (catalog_table cat (c, n)) = nspname n" "tb_Name (catalog_table cat (c, n)) = relname c"
    "r_schema (table_result_of cat (c, n)) = nspname n" "r_name (table_result_of cat (c, n)) = relname c"
    by (simp_all add: catalog_table_def table_result_of_def)
  moreover have "\<not> listed_schema (nspname n)"
    by (simp add: listed_schema_iff assms(3))
  ultimately show ?thesis
    by (fastforce simp: queryListSchemas_def)
qed

text \<open>C10: the schema list is the catalog's. When the server answers from its catalogs and no iteration breaks,
  the list has, each exactly once, the schemas of every database that accepts connections and is no
  template, with the database, name, owner and oid of the catalog. Left out are \<open>information_schema\<close>
  and every schema whose name has \<open>pg\<close> before at least one more character, because the underscore of
  \<open>LIKE 'pg_%'\<close> is a wildcard.\<close>

theorem ListSchemas_catalog:
  assumes "catalog_driver x cat" "pgx_Query x (st_pool s) SqlDatabases = Inr rows" "rw_err rows = None"
    and "is_schedule sched (connectable (cat (st_pool s)))" "ListSchemas x s acq sched = Inr schemas"
  shows "mset schemas = mset (concat (map (\<lambda>d. schema_entries (cat (st_connStrFor s d)) d)
    (connectable (cat (st_pool s)))))"
proof -
  obtain dbs where "snd (ListDatabases x s) = Inr dbs"
    "forEachDatabase sched dbs (\<lambda>d. snd (listSchemasForDatabase x s acq d)) = Inr schemas"
    using assms(5) by (auto simp: ListSchemas_def split: sum.splits)
  from catalog_driver.aggregated_rows [OF assms(1-4) this, of "\<lambda>s. s"] show ?thesis
    using catalog_driver.worker_rows(1) [OF assms(1)] schema_entries_query by simp
qed

text \<open>C11: the lists of sequences, functions and extensions are the catalog's, too. When they succeed they have, each exactly
  once, the sequences and functions of every database that accepts connections and is no template,
  except those in \<open>information_schema\<close> and in schemas whose name has \<open>pg\<close> before at least one more
  character, and the extensions installed in those databases, with the columns of the catalog and the
  name of the database. The available extensions are those of the default database with their default
  versions; an extension without one (\<open>default_version\<close> is NULL when its control file names none) makes
  the whole list fail.\<close>

theorem catalog_lists:
  assumes "catalog_driver x cat" "pgx_Query x (st_pool s) SqlDatabases = Inr rows" "rw_err rows = None"
    and "is_schedule sched (connectable (cat (st_pool s)))"
  shows "(ListSequences x s acq sched = Inr seqs \<longrightarrow>
      mset seqs = mset (concat (map (\<lambda>d. sequence_entries (cat (st_connStrFor s d)) d) (connectable (cat (st_pool s)))))) \<and>
    (ListFunctions x s acq sched = Inr fns \<longrightarrow>
      mset fns = mset (concat (map (\<lambda>d. function_entries (cat (st_connStrFor s d)) d) (connectable (cat (st_pool s)))))) \<and>
    (ListExtensions x s acq sched = Inr (avail, exts) \<longrightarrow>
      map (\<lambda>a. (ae_Name a, Some (ae_DefaultVersion a))) avail = available_extensions (cat (st_pool s)) \<and>
      mset exts = mset (concat (map (\<lambda>d. extension_entries (cat (st_connStrFor s d)) d) (connectable (cat (st_pool s)))))) \<and>
    ((name, None) \<in> set (available_extensions (cat (st_pool s))) \<longrightarrow> isl (ListExtensions x s acq sched))"
proof -
  have "isl (ListExtensions x s acq sched)" if null: "(name, None) \<in> set (available_extensions (cat (st_pool s)))"
  proof (rule ccontr)
    assume "\<not> isl (ListExtensions x s acq sched)"
    then obtain avail exts where "ListExtensions x s acq sched = Inr (avail, exts)"
      by (cases "ListExtensions x s acq sched") auto
    from catalog_driver.available_rows [OF assms(1) this] null show False
      by (metis (no_types, lifting) ex_map_conv option.distinct(1) prod.inject)
  qed
  then show ?thesis
    using catalog_driver.list_rows [OF assms] catalog_driver.available_rows [OF assms(1)] by blast
qed

text \<open>The table list is the catalog's: one entry for every database that accepts connections and is no
  template, with the tables of its catalog.\<close>

theorem ListTables_catalog:
  assumes "table_driver x cat" "pgx_Query x (st_pool s) SqlDatabases = Inr rows" "rw_err rows = None"
    and "is_schedule sched (connectable (cat (st_pool s)))" "ListTables x s acq sched = Inr infos"
    and "\<forall>d \<in> set (connectable (cat (st_pool s))). catalog_ok (cat (st_connStrFor s d)) \<and> sizes_ok (cat (st_connStrFor s d))"
  shows "mset infos = mset (map (\<lambda>d. \<lparr>tbi_Database = d, tbi_Tables = catalog_tables (cat (st_connStrFor s d))\<rparr>)
    (connectable (cat (st_pool s))))"
  by (rule table_driver.ListTables_rows [OF assms])

text \<open>The catalog of a database with a job queue in the schema \<open>pgboss\<close>.\<close>

definition demo_catalog :: catalog where
  "demo_catalog = \<lparr>
     databases = [\<lparr>dat_oid = 5, datname = ''app'', datallowconn = True, datistemplate = False\<rparr>,
                  \<lparr>dat_oid = 1, datname = ''template1'', datallowconn = True, datistemplate = True\<rparr>],
     namespaces = [\<lparr>nsp_oid = 11, nspname = ''pg_catalog'', nspowner = 10\<rparr>,
                   \<lparr>nsp_oid = 2200, nspname = ''public'', nspowner = 10\<rparr>,
                   \<lparr>nsp_oid = 16385, nspname = ''pgboss'', nspowner = 10\<rparr>],
     classes = [\<lparr>rel_oid = 16390, relname = ''job'', relnamespace = 16385, relowner = 10, relkind = CHR ''r'',
                 relam = 2, reltoastrelid = 0, reltuples = - 1\<rparr>,
                \<lparr>rel_oid = 16393, relname = ''job_pkey'', relnamespace = 16385, relowner = 10, relkind = CHR ''i'',
                 relam = 403, reltoastrelid = 0, reltuples = 0\<rparr>],
     procs = [], languages = [], sequences = [], pgtypes = [],
     extensions = [\<lparr>ext_oid = 13500, extname = ''plpgsql'', extversion = ''1.0'', extnamespace = 11\<rparr>],
     available_extensions = [(''plpgsql'', Some ''1.0'')],
     attributes = [\<lparr>attrelid = 16390, attnum = 1, attname = ''id'', atttypid = 20, atttypmod = - 1, attnotnull = True,
                    attinhcount = 0, attisdropped = False\<rparr>],
     indexes = [\<lparr>indexrelid = 16393, indrelid = 16390, indkey = [1], indisunique = True, indisprimary = True,
                 indisexclusion = False, indisvalid = True, indpred = None\<rparr>],
     access_methods = [\<lparr>am_oid = 403, amname = ''btree''\<rparr>],
     constraints = [], inherits = [], cluster_config = [(''stanza'', ''main''), (''cluster_name'', ''c1'')],
     pg_get_userbyid = (\<lambda>oid. ''postgres''), format_type = (\<lambda>oid m. ''bigint''),
     pg_get_function_identity_arguments = (\<lambda>oid. []), obj_description = (\<lambda>oid. None),
     pg_relation_size = (\<lambda>oid. if oid = 0 then None else Some 8192),
     pg_total_relation_size = (\<lambda>oid. Some 16384),
     pg_get_indexdef = (\<lambda>oid. ''CREATE UNIQUE INDEX job_pkey''), pg_get_constraintdef = (\<lambda>oid. []),
     regclass_text = (\<lambda>oid. ''pgboss.job'')\<rparr>"

lemma demo_catalog_ok: "catalog_ok demo_catalog" "sizes_ok demo_catalog"
  by (simp_all add: demo_catalog_def catalog_ok_def sizes_ok_def)

lemma user_schema_demo: "user_schema ''pgboss'' = True" "user_schema ''public'' = True" "user_schema ''pg_catalog'' = False"
  by (simp_all add: user_schema_def next_char_def is_continuation_def)

theorem hidden_schema_has_tables_witness:
  "(\<exists>t \<in> set (catalog_tables demo_catalog). tb_Schema t = ''pgboss'' \<and> tb_Name t = ''job'')"
  using hidden_schema_has_tables [OF demo_catalog_ok(1), of "\<lparr>nsp_oid = 16385, nspname = ''pgboss'', nspowner = 10\<rparr>"
      "CHR ''b''" "''oss''" "\<lparr>rel_oid = 16390, relname = ''job'', relnamespace = 16385, relowner = 10, relkind = CHR ''r'',
                 relam = 2, reltoastrelid = 0, reltuples = - 1\<rparr>"]
  by (simp add: user_schema_demo) (simp add: demo_catalog_def)

lemma demo_listed: "listed_tables demo_catalog =
    [(\<lparr>rel_oid = 16390, relname = ''job'', relnamespace = 16385, relowner = 10, relkind = CHR ''r'',
       relam = 2, reltoastrelid = 0, reltuples = - 1\<rparr>, \<lparr>nsp_oid = 16385, nspname = ''pgboss'', nspowner = 10\<rparr>)]"
  by (simp add: listed_tables_def user_schema_demo demo_catalog_def)


lemma demo_tables_encodable: "list_all encodable_row (queryTables demo_catalog)"
proof -
  have enc: "encodable j" if "json_ok j" "depth j \<le> maxNestingDepth" for j
    using parse_show_json that by (simp add: encodable_def)
  show ?thesis
    unfolding queryTables_sorted [OF demo_catalog_ok(1)] demo_listed
    by (simp add: encodable_row_def table_result_of_def enc maxNestingDepth_def stats_json_def json_bigint_def
        table_columns_def column_json_def agg_def table_indexes_def index_json_def key_columns_def
        names_or_null_def table_constraints_def table_parents_def demo_catalog_def num_ok_show_int
        utf8_ok.simps rune_len_ascii byte_def)
qed

theorem tables_worker_catalog_witness:
  "snd (listTablesForDatabase (catalog_pgx (\<lambda>p. demo_catalog)) demo_store (\<lambda>d. None) ''app'') =
     Inr [\<lparr>tbi_Database = ''app'', tbi_Tables = catalog_tables demo_catalog\<rparr>] \<and>
   map tb_Name (catalog_tables demo_catalog) = [''job'']"
proof -
  let ?cat = "\<lambda>p :: string. demo_catalog"
  have "pgx_Query (catalog_pgx ?cat) p SqlTables =
      Inr \<lparr>rw_rows = map TableRow (queryTables demo_catalog), rw_err = None\<rparr>" for p
    by (simp add: catalog_pgx_def demo_tables_encodable)
  moreover have "pgx_New (catalog_pgx ?cat) p = None" for p
    by (simp add: catalog_pgx_def)
  ultimately show ?thesis
    using tables_worker_catalog [OF catalog_server.table_driver_axioms, of "\<lambda>d. None" "''app''" ?cat demo_store]
      demo_catalog_ok by (simp add: catalog_tables_def demo_listed catalog_table_def)
qed

text \<open>The server of that catalog.\<close>

abbreviation demo_server :: "catalog_row pgx" where
  "demo_server \<equiv> catalog_pgx (\<lambda>p. demo_catalog)"

lemma demo_server_databases:
  "pgx_Query demo_server p SqlDatabases = Inr \<lparr>rw_rows = map DatabaseRow (queryDatabases demo_catalog), rw_err = None\<rparr>"
  by (simp add: catalog_pgx_def)

lemma demo_connectable: "connectable demo_catalog = [''app'']" "is_schedule [0] (connectable demo_catalog)"
  by (simp_all add: connectable_def is_schedule_def demo_catalog_def)

lemma demo_server_dbs: "snd (ListDatabases demo_server demo_store) = Inr [\<lparr>db_Name = ''app'', db_Oid = 5\<rparr>]"
  by (simp add: ListDatabases_def demo_server_databases) (simp add: queryDatabases_def catalog_pgx_def demo_catalog_def)

lemma demo_server_schemas: "ListSchemas demo_server demo_store (\<lambda>d. None) [0] =
    Inr [\<lparr>sch_Database = ''app'', sch_Name = ''public'', sch_Owner = ''postgres'', sch_Oid = 2200\<rparr>]"
proof -
  have "queryListSchemas demo_catalog = [(2200, ''public'', ''postgres'')]"
    by (simp add: queryListSchemas_def listed_schema_iff demo_catalog_def)
  then have "snd (listSchemasForDatabase demo_server demo_store (\<lambda>d. None) d) =
      Inr [\<lparr>sch_Database = d, sch_Name = ''public'', sch_Owner = ''postgres'', sch_Oid = 2200\<rparr>]" for d
    by (simp add: listSchemasForDatabase_def with_database_def read_rows_def Let_def catalog_pgx_def)
  then show ?thesis
    by (simp add: ListSchemas_def demo_server_dbs forEachDatabase_def fan_result_def)
qed

theorem ListSchemas_catalog_witness:
  "mset [\<lparr>sch_Database = ''app'', sch_Name = ''public'', sch_Owner = ''postgres'', sch_Oid = 2200\<rparr>] =
   mset (schema_entries demo_catalog ''app'')"
  using ListSchemas_catalog [OF catalog_server.catalog_driver_axioms demo_server_databases _ demo_connectable(2)
      demo_server_schemas] by (simp add: demo_connectable(1))

lemma demo_server_extensions: "ListExtensions demo_server demo_store (\<lambda>d. None) [0] =
    Inr ([\<lparr>ae_Name = ''plpgsql'', ae_DefaultVersion = ''1.0''\<rparr>],
      [\<lparr>ie_Name = ''plpgsql'', ie_Version = ''1.0'', ie_Schema = ''pg_catalog'', ie_Database = ''app'', ie_Oid = 13500\<rparr>])"
proof -
  have "queryListInstalledExtensions demo_catalog = [(13500, ''plpgsql'', ''1.0'', ''pg_catalog'')]"
    "queryAvailableExtensions demo_catalog = [(''plpgsql'', Some ''1.0'')]"
    by (simp_all add: queryListInstalledExtensions_def queryAvailableExtensions_def demo_catalog_def)
  then have "snd (listAvailableExtensions demo_server demo_store) =
      Inr [\<lparr>ae_Name = ''plpgsql'', ae_DefaultVersion = ''1.0''\<rparr>]"
    "snd (listInstalledExtensionsForDatabase demo_server demo_store (\<lambda>d. None) d) =
      Inr [\<lparr>ie_Name = ''plpgsql'', ie_Version = ''1.0'', ie_Schema = ''pg_catalog'', ie_Database = d, ie_Oid = 13500\<rparr>]" for d
    by (simp_all add: listInstalledExtensionsForDatabase_def listAvailableExtensions_def with_database_def
        read_rows_def Let_def catalog_pgx_def)
  then show ?thesis
    by (simp add: ListExtensions_def demo_server_dbs forEachDatabase_def fan_result_def)
qed

text \<open>The same catalog with two sequences, one in a hidden schema, and with an extension that has no default
  version.\<close>

definition demo_sequences :: catalog where
  "demo_sequences = demo_catalog\<lparr>
     classes := [\<lparr>rel_oid = 16401, relname = ''s1'', relnamespace = 2200, relowner = 10, relkind = CHR ''S'',
                  relam = 0, reltoastrelid = 0, reltuples = 1\<rparr>,
                 \<lparr>rel_oid = 16402, relname = ''s2'', relnamespace = 16385, relowner = 10, relkind = CHR ''S'',
                  relam = 0, reltoastrelid = 0, reltuples = 1\<rparr>],
     sequences := [\<lparr>seqrelid = 16401, seqtypid = 20\<rparr>, \<lparr>seqrelid = 16402, seqtypid = 20\<rparr>],
     pgtypes := [\<lparr>typ_oid = 20, typname = ''int8''\<rparr>],
     available_extensions := [(''plpgsql'', Some ''1.0''), (''broken'', None)]\<rparr>"

abbreviation demo_sequences_server :: "catalog_row pgx" where
  "demo_sequences_server \<equiv> catalog_pgx (\<lambda>p. demo_sequences)"

lemma demo_sequences_server_databases:
  "pgx_Query demo_sequences_server p SqlDatabases =
     Inr \<lparr>rw_rows = map DatabaseRow (queryDatabases demo_sequences), rw_err = None\<rparr>"
  by (simp add: catalog_pgx_def)

lemma demo_sequences_connectable: "connectable demo_sequences = [''app'']" "is_schedule [0] (connectable demo_sequences)"
  by (simp_all add: connectable_def is_schedule_def demo_catalog_def demo_sequences_def)

abbreviation demo_s1 :: Sequence where
  "demo_s1 \<equiv> \<lparr>seq_Name = ''s1'', seq_Schema = ''public'', seq_Owner = ''postgres'', seq_Database = ''app'',
     seq_DataType = ''int8'', seq_Oid = 16401\<rparr>"

lemma demo_server_sequences: "ListSequences demo_sequences_server demo_store (\<lambda>d. None) [0] = Inr [demo_s1]"
proof -
  have "querySequences demo_sequences = [(16401, ''s1'', ''public'', ''postgres'', ''int8'')]"
    by (simp add: querySequences_def listed_schema_iff demo_sequences_def demo_catalog_def)
  then have "snd (listSequencesForDatabase demo_sequences_server demo_store (\<lambda>d. None) ''app'') = Inr [demo_s1]"
    by (simp add: listSequencesForDatabase_def with_database_def read_rows_def Let_def catalog_pgx_def)
  moreover have "snd (ListDatabases demo_sequences_server demo_store) = Inr [\<lparr>db_Name = ''app'', db_Oid = 5\<rparr>]"
    by (simp add: ListDatabases_def demo_sequences_server_databases)
      (simp add: queryDatabases_def catalog_pgx_def demo_catalog_def demo_sequences_def)
  ultimately show ?thesis
    by (simp add: ListSequences_def forEachDatabase_def fan_result_def)
qed

theorem catalog_lists_witness:
  "mset [demo_s1] = mset (sequence_entries demo_sequences ''app'') \<and>
   mset [\<lparr>ie_Name = ''plpgsql'', ie_Version = ''1.0'', ie_Schema = ''pg_catalog'', ie_Database = ''app'', ie_Oid = 13500\<rparr>] =
   mset (extension_entries demo_catalog ''app'') \<and>
   isl (ListExtensions demo_sequences_server demo_store (\<lambda>d. None) [0])"
proof -
  note lists = catalog_lists [OF catalog_server.catalog_driver_axioms demo_server_databases _ demo_connectable(2),
      where s = demo_store and acq = "\<lambda>d. None"]
  note lists' = catalog_lists [OF catalog_server.catalog_driver_axioms demo_sequences_server_databases _
      demo_sequences_connectable(2), where s = demo_store and acq = "\<lambda>d. None"]
  have "mset [demo_s1] = mset (sequence_entries demo_sequences ''app'')"
    using conjunct1 [OF lists', rule_format, OF _ demo_server_sequences] by (simp add: demo_sequences_connectable(1))
  moreover have "(''broken'', None) \<in> set (available_extensions demo_sequences)"
    by (simp add: demo_sequences_def)
  then have "isl (ListExtensions demo_sequences_server demo_store (\<lambda>d. None) [0])"
    using conjunct2 [OF conjunct2 [OF conjunct2 [OF lists']]] by simp
  ultimately show ?thesis
    using conjunct1 [OF conjunct2 [OF conjunct2 [OF lists]], rule_format, OF _ demo_server_extensions]
    by (simp add: demo_connectable(1))
qed

lemma demo_server_tables: "ListTables demo_server demo_store (\<lambda>d. None) [0] =
    Inr [\<lparr>tbi_Database = ''app'', tbi_Tables = catalog_tables demo_catalog\<rparr>]"
proof -
  have "pgx_Query demo_server p SqlTables =
      Inr \<lparr>rw_rows = map TableRow (queryTables demo_catalog), rw_err = None\<rparr>" for p
    by (simp add: catalog_pgx_def demo_tables_encodable)
  moreover have "pgx_New demo_server p = None" for p
    by (simp add: catalog_pgx_def)
  ultimately have "snd (listTablesForDatabase demo_server demo_store (\<lambda>d. None) d) =
      Inr [\<lparr>tbi_Database = d, tbi_Tables = catalog_tables demo_catalog\<rparr>]" for d
    using catalog_server.tables_worker_result [of "\<lambda>d. None" d "\<lambda>p. demo_catalog" demo_store] demo_catalog_ok by simp
  then show ?thesis
    by (simp add: ListTables_def demo_server_dbs forEachDatabase_def fan_result_def)
qed

theorem ListTables_catalog_witness:
  "ListTables demo_server demo_store (\<lambda>d. None) [0] =
     Inr [\<lparr>tbi_Database = ''app'', tbi_Tables = catalog_tables demo_catalog\<rparr>] \<and>
   mset [\<lparr>tbi_Database = ''app'', tbi_Tables = catalog_tables demo_catalog\<rparr>] =
   mset (map (\<lambda>d. \<lparr>tbi_Database = d, tbi_Tables = catalog_tables demo_catalog\<rparr>) (connectable demo_catalog))"
  using ListTables_catalog [OF catalog_server.table_driver_axioms demo_server_databases _ demo_connectable(2)
      demo_server_tables] demo_server_tables demo_catalog_ok by simp

end
