(* ===== verification/Pg_Server_Info.thy ===== *)
theory Pg_Server_Info
  imports Extractor_Server Go_Flag Pg_Catalog_Server
begin

text \<open>
  The statement \<open>queryServerInfo\<close> of \<open>store.go\<close> as a function of the state of the server, and what
  \<open>GetServerInfo\<close> reports of it. The contract \<open>server_driver\<close> says how the driver scans the row: the columns
  are stored as they are, and the timeline, a column of 32 bits, is only stored into the \<open>int8\<close> of
  \<open>types.ServerInfo\<close> when it fits, which is what the driver documents for integers.
\<close>

section \<open>The statement\<close>

record server_state =
  srv_in_recovery :: bool                        \<comment> \<open>\<open>pg_is_in_recovery()\<close>\<close>
  srv_setting :: "string \<Rightarrow> string option"        \<comment> \<open>\<open>current_setting\<close>; an unknown name is an error\<close>
  srv_system_identifier :: i64                   \<comment> \<open>\<open>pg_control_system()\<close>\<close>
  srv_timeline_id :: i32                         \<comment> \<open>\<open>pg_control_checkpoint()\<close>\<close>
  srv_version :: string                          \<comment> \<open>\<open>version()\<close>\<close>

text \<open>The cast of a text to \<open>int\<close>: decimal digits after an optional sign, with blanks around, in the range of
  32 bits; anything else is an error.\<close>

definition is_blank :: "char \<Rightarrow> bool" where
  "is_blank c \<longleftrightarrow> c = CHR '' '' \<or> (CHR 0x09 \<le> c \<and> c \<le> CHR 0x0D)"

definition trim_blanks :: "string \<Rightarrow> string" where
  "trim_blanks s = rev (dropWhile is_blank (rev (dropWhile is_blank s)))"

definition int4_range :: "int \<Rightarrow> i32 option" where
  "int4_range i = (if - (2 ^ 31) \<le> i \<and> i < 2 ^ 31 then Some (word_of_int i) else None)"

definition text_to_int4 :: "string \<Rightarrow> i32 option" where
  "text_to_int4 s =
     (case trim_blanks s of
        [] \<Rightarrow> None
      | c # t \<Rightarrow>
        let neg = (c = CHR ''-''); ds = (if c = CHR ''-'' \<or> c = CHR ''+'' then t else c # t) in
        if ds = [] \<or> \<not> list_all is_digit ds then None
        else Option.bind (digits_value 10 0 ds) (\<lambda>n. int4_range (if neg then - int n else int n)))"

type_synonym server_row = "bool \<times> string \<times> string \<times> i32 \<times> i32 \<times> string \<times> string \<times> string \<times> i64 \<times> i32 \<times> string"

definition queryServerInfo :: "server_state \<Rightarrow> server_row option" where
  "queryServerInfo v =
     Option.bind (srv_setting v ''transaction_read_only'') (\<lambda>is_read_only.
     Option.bind (srv_setting v ''ssl'') (\<lambda>ssl.
     Option.bind (Option.bind (srv_setting v ''port'') text_to_int4) (\<lambda>port.
     Option.bind (Option.bind (srv_setting v ''max_connections'') text_to_int4) (\<lambda>max_connections.
     Option.bind (srv_setting v ''archive_mode'') (\<lambda>archive_mode.
     Option.bind (srv_setting v ''wal_level'') (\<lambda>wal_level.
     Option.bind (srv_setting v ''data_directory'') (\<lambda>data_directory.
     Some (srv_in_recovery v, is_read_only, ssl, port, max_connections, archive_mode, wal_level, data_directory,
       srv_system_identifier v, srv_timeline_id v, srv_version v))))))))"

section \<open>The driver\<close>

text \<open>\<open>Scan\<close> of the row into the fields of \<open>types.ServerInfo\<close>.\<close>

definition scan_server_row ::
  "server_row \<Rightarrow> (bool \<times> string \<times> string \<times> i32 \<times> i32 \<times> string \<times> string \<times> string \<times> i64 \<times> i8 \<times> string) option" where
  "scan_server_row row =
     (case row of (inRecovery, readOnly, ssl, port, maxConn, archive, wal, dataDir, sysId, timeline, version) \<Rightarrow>
        if - 128 \<le> sint timeline \<and> sint timeline \<le> 127
        then Some (inRecovery, readOnly, ssl, port, maxConn, archive, wal, dataDir, sysId, scast timeline, version)
        else None)"

locale server_driver =
  fixes x :: "'raw pgx" and srv :: "string \<Rightarrow> server_state"
  assumes scan_server: "pgx_QueryServerInfo x p SqlServerInfo = Inr values \<Longrightarrow>
    Option.bind (queryServerInfo (srv p)) scan_server_row = Some values"
begin

lemma server_values:
  assumes "pgx_QueryServerInfo x p SqlServerInfo =
    Inr (inRecovery, readOnly, ssl, port, maxConn, archive, wal, dataDir, sysId, timeline, version)"
  shows "srv_in_recovery (srv p) = inRecovery" "srv_setting (srv p) ''transaction_read_only'' = Some readOnly"
    "srv_setting (srv p) ''ssl'' = Some ssl" "Option.bind (srv_setting (srv p) ''port'') text_to_int4 = Some port"
    "Option.bind (srv_setting (srv p) ''max_connections'') text_to_int4 = Some maxConn"
    "srv_setting (srv p) ''archive_mode'' = Some archive" "srv_setting (srv p) ''wal_level'' = Some wal"
    "srv_setting (srv p) ''data_directory'' = Some dataDir" "srv_system_identifier (srv p) = sysId"
    "timeline = scast (srv_timeline_id (srv p))" "- 128 \<le> sint (srv_timeline_id (srv p))"
    "sint (srv_timeline_id (srv p)) \<le> 127" "srv_version (srv p) = version"
  using scan_server [OF assms]
  by (auto simp: queryServerInfo_def scan_server_row_def bind_eq_Some_conv split: if_splits)

end

text \<open>A server without failures: the driver of the catalogs, with the answer to this statement.\<close>

definition server_pgx :: "(string \<Rightarrow> server_state) \<Rightarrow> (string \<Rightarrow> catalog) \<Rightarrow> catalog_row pgx" where
  "server_pgx srv cat = (catalog_pgx cat)\<lparr>pgx_QueryServerInfo := \<lambda>p q.
     case Option.bind (queryServerInfo (srv p)) scan_server_row of
       None \<Rightarrow> Inl (ErrorString ''cannot scan the server information'')
     | Some values \<Rightarrow> Inr values\<rparr>"

interpretation server: server_driver "server_pgx srv cat" srv for srv cat
  by unfold_locales (simp add: server_pgx_def split: option.splits)

lemma sint_scast_i8:
  fixes t :: i32
  assumes "- 128 \<le> sint t" "sint t \<le> 127"
  shows "sint (scast t :: i8) = sint t"
  using assms by (simp add: signed_scast_eq signed_take_bit_int_eq_self)

section \<open>Properties\<close>

text \<open>C27: \<open>GetServerInfo\<close> reports the state of the server. A response has the version number in the text of
  \<open>version()\<close>, the settings \<open>transaction_read_only\<close> and \<open>ssl\<close> as flags, \<open>port\<close> and \<open>max_connections\<close> as
  numbers, and the other settings, the system identifier, the recovery state and the timeline as the
  server has them; and there is only a response while the timeline is at most 127: on a later timeline
  every request fails.\<close>

theorem GetServerInfo_server:
  assumes "server_driver x srv" "v = srv (st_pool (sv_store s))" "Server_GetServerInfo x s = Inr r"
  shows "parsePgVersion (srv_version v) = Inr (pbs_PgVersion r) \<and>
    (\<exists>readOnly ssl. srv_setting v ''transaction_read_only'' = Some readOnly \<and> on_off readOnly (pbs_IsReadOnly r) \<and>
       srv_setting v ''ssl'' = Some ssl \<and> on_off ssl (pbs_SslEnabled r)) \<and>
    Option.bind (srv_setting v ''port'') text_to_int4 = Some (pbs_Port r) \<and>
    Option.bind (srv_setting v ''max_connections'') text_to_int4 = Some (pbs_MaxConnections r) \<and>
    srv_setting v ''archive_mode'' = Some (pbs_ArchiveMode r) \<and> srv_setting v ''wal_level'' = Some (pbs_WalLevel r) \<and>
    srv_setting v ''data_directory'' = Some (pbs_DataDirectory r) \<and> srv_system_identifier v = pbs_SystemIdentifier r \<and>
    srv_in_recovery v = pbs_IsInRecovery r \<and> sint (pbs_TimelineId r) = sint (srv_timeline_id v) \<and>
    sint (srv_timeline_id v) \<le> 127 \<and> pbs_ClusterName r = st_ClusterName (sv_store s)"
proof -
  obtain inRecovery readOnly ssl port maxConn archive wal dataDir sysId timeline version where
    answer: "pgx_QueryServerInfo x (st_pool (sv_store s)) SqlServerInfo =
      Inr (inRecovery, readOnly, ssl, port, maxConn, archive, wal, dataDir, sysId, timeline, version)"
    using assms(3) by (auto simp: Server_GetServerInfo_def GetServerInfo_def split: sum.splits prod.splits)
  note server = server_driver.server_values [OF assms(1) answer, folded assms(2)]
  note reported = assms(3) [unfolded GetServerInfo_response [OF answer]]
  have "sint timeline = sint (srv_timeline_id v)"
    using server(10-12) sint_scast_i8 by simp
  with server reported show ?thesis by auto
qed

text \<open>A server on its third timeline, and the same server on timeline 200.\<close>

definition demo_state :: server_state where
  "demo_state = \<lparr>srv_in_recovery = False,
     srv_setting = [''transaction_read_only'' \<mapsto> ''off'', ''ssl'' \<mapsto> ''on'', ''port'' \<mapsto> ''5432'',
       ''max_connections'' \<mapsto> ''100'', ''archive_mode'' \<mapsto> ''on'', ''wal_level'' \<mapsto> ''replica'',
       ''data_directory'' \<mapsto> ''/data''],
     srv_system_identifier = 7, srv_timeline_id = 3, srv_version = ''PostgreSQL 15.13 (Debian)''\<rparr>"

lemma demo_int4: "text_to_int4 ''5432'' = Some 5432" "text_to_int4 ''100'' = Some 100"
  by (simp_all add: text_to_int4_def trim_blanks_def is_blank_def is_digit_def digit_of_def lower_bit_def int4_range_def)

lemma demo_server_row:
  "queryServerInfo demo_state = Some (False, ''off'', ''on'', 5432, 100, ''on'', ''replica'', ''/data'', 7, 3,
    ''PostgreSQL 15.13 (Debian)'')"
  by (simp add: queryServerInfo_def demo_state_def demo_int4)

lemma demo_server_info:
  "\<exists>r. Server_GetServerInfo (server_pgx (\<lambda>p. demo_state) cat) \<lparr>sv_store = demo_store\<rparr> = Inr r"
proof -
  have h: "pgx_QueryServerInfo (server_pgx (\<lambda>p. demo_state) cat) (st_pool (sv_store \<lparr>sv_store = demo_store\<rparr>)) SqlServerInfo =
      Inr (False, ''off'', ''on'', 5432, 100, ''on'', ''replica'', ''/data'', 7, 3, ''PostgreSQL 15.13 (Debian)'')"
    by (simp add: server_pgx_def demo_server_row scan_server_row_def)
  let ?r = "\<lparr>pbs_ClusterName = st_ClusterName demo_store, pbs_PgVersion = ''15.13'', pbs_IsInRecovery = False,
    pbs_IsReadOnly = False, pbs_SslEnabled = True, pbs_Port = 5432, pbs_MaxConnections = 100,
    pbs_ArchiveMode = ''on'', pbs_DataDirectory = ''/data'', pbs_SystemIdentifier = 7, pbs_TimelineId = 3,
    pbs_WalLevel = ''replica''\<rparr>"
  have "Server_GetServerInfo (server_pgx (\<lambda>p. demo_state) cat) \<lparr>sv_store = demo_store\<rparr> = Inr ?r"
    unfolding GetServerInfo_response [OF h]
    by (simp add: parsePgVersion_eq Let_def is_digit_def on_off_def lower_byte_def is_upper_def)
  then show ?thesis by blast
qed

theorem GetServerInfo_server_witness:
  "(\<exists>r. Server_GetServerInfo (server_pgx (\<lambda>p. demo_state) (\<lambda>p. demo_catalog)) \<lparr>sv_store = demo_store\<rparr> = Inr r \<and>
      pbs_Port r = 5432 \<and> sint (pbs_TimelineId r) = 3) \<and>
   (\<nexists>r. Server_GetServerInfo (server_pgx (\<lambda>p. demo_state\<lparr>srv_timeline_id := 200\<rparr>) (\<lambda>p. demo_catalog)) \<lparr>sv_store = demo_store\<rparr> = Inr r)"
proof
  obtain r where r: "Server_GetServerInfo (server_pgx (\<lambda>p. demo_state) (\<lambda>p. demo_catalog)) \<lparr>sv_store = demo_store\<rparr> = Inr r"
    using demo_server_info by blast
  have "Option.bind (srv_setting demo_state ''port'') text_to_int4 = Some 5432" "sint (srv_timeline_id demo_state) = 3"
    by (simp_all add: demo_state_def demo_int4)
  then have "pbs_Port r = 5432 \<and> sint (pbs_TimelineId r) = 3"
    using GetServerInfo_server [OF server.server_driver_axioms refl r] by auto
  with r show "\<exists>r. Server_GetServerInfo (server_pgx (\<lambda>p. demo_state) (\<lambda>p. demo_catalog)) \<lparr>sv_store = demo_store\<rparr> = Inr r \<and>
      pbs_Port r = 5432 \<and> sint (pbs_TimelineId r) = 3" by blast
  have "\<not> sint (srv_timeline_id (demo_state\<lparr>srv_timeline_id := 200\<rparr>)) \<le> 127"
    by simp
  then show "\<nexists>r. Server_GetServerInfo (server_pgx (\<lambda>p. demo_state\<lparr>srv_timeline_id := 200\<rparr>) (\<lambda>p. demo_catalog)) \<lparr>sv_store = demo_store\<rparr> = Inr r"
    using GetServerInfo_server [OF server.server_driver_axioms refl] by blast
qed

end
