(* ===== verification/Concurrent_Request.thy ===== *)
theory Concurrent_Request
  imports Pg_Tables
begin

text \<open>
  A list request while the rest of the service runs. \<open>forEachDatabase\<close> starts one goroutine for each
  database; it runs a worker, which takes the permit of the database, has its effects and gives the
  permit back (the goroutines of \<open>Connection_Coordinator\<close>), and then sends the worker's result; the
  receiving loop collects the results (\<open>Fan_Out\<close>). The two machines are joined here: a goroutine can
  send once its worker has returned, and what it sends depends on what \<open>Acquire\<close> returned to it. All
  other goroutines of the service run in between, new requests start, and contexts are cancelled.
\<close>

section \<open>The machine of a request\<close>

record 'a request =
  rq_svc :: sys        \<comment> \<open>the goroutines of the service and the coordinator\<close>
  rq_fan :: "'a fan"   \<comment> \<open>the channel and the receiving loop of the request\<close>

text \<open>What \<open>Acquire\<close> returned to a goroutine, once the worker has returned.\<close>

definition returned :: "sys \<Rightarrow> gid \<Rightarrow> bool" where
  "returned s g \<longleftrightarrow> (\<exists>e. g_pc (gor s ! g) = Returned e)"

definition outcome :: "sys \<Rightarrow> gid \<Rightarrow> go_error option" where
  "outcome s g = (case g_pc (gor s ! g) of Returned e \<Rightarrow> e | _ \<Rightarrow> None)"

type_synonym 'a worker = "(string \<Rightarrow> go_error option) \<Rightarrow> string \<Rightarrow> 'a list go eff"

definition start_worker :: "'a worker \<Rightarrow> go_error option \<Rightarrow> Database \<Rightarrow> sys \<Rightarrow> sys" where
  "start_worker w ctx db s = spawn_go s (db_Name db) ctx (worker_body (fst (w (\<lambda>_. None) (db_Name db))))"

text \<open>The request has started its goroutines; none of them has run yet. (The loop starts them one after the
  other, but a goroutine that has not run yet and one that is not there yet make no difference to the
  others.) Their numbers follow those of the goroutines already there.\<close>

definition request_start :: "'a worker \<Rightarrow> go_error option \<Rightarrow> Database list \<Rightarrow> sys \<Rightarrow> 'a request" where
  "request_start w ctx dbs s = \<lparr>rq_svc = fold (start_worker w ctx) dbs s, rq_fan = fan_init (length dbs)\<rparr>"

text \<open>What the \<open>i\<close>-th goroutine of the request sends; \<open>b\<close> is the number of the first one.\<close>

definition request_out :: "'a worker \<Rightarrow> Database list \<Rightarrow> gid \<Rightarrow> sys \<Rightarrow> nat \<Rightarrow> 'a result" where
  "request_out w dbs b s i = snd (w (\<lambda>_. outcome s (b + i)) (db_Name (dbs ! i)))"

inductive request_step :: "'a worker \<Rightarrow> Database list \<Rightarrow> gid \<Rightarrow> 'a request \<Rightarrow> 'a request \<Rightarrow> bool" for w dbs b where
  goroutine_runs: "run_step (rq_svc r) t \<Longrightarrow> request_step w dbs b r (r\<lparr>rq_svc := t\<rparr>)"
| result_moves: "fan_step (length dbs) (request_out w dbs b (rq_svc r)) (rq_fan r) f \<Longrightarrow>
    \<forall>i \<in> set (pending (rq_fan r)) - set (pending f). returned (rq_svc r) (b + i) \<Longrightarrow>
    request_step w dbs b r (r\<lparr>rq_fan := f\<rparr>)"

text \<open>What the rest of the world does meanwhile.\<close>

inductive other_step :: "'a request \<Rightarrow> 'a request \<Rightarrow> bool" where
  others: "env_step (rq_svc r) t \<Longrightarrow> other_step r (r\<lparr>rq_svc := t\<rparr>)"

definition request_reaches ::
  "'a worker \<Rightarrow> go_error option \<Rightarrow> Database list \<Rightarrow> sys \<Rightarrow> 'a request \<Rightarrow> bool" where
  "request_reaches w ctx dbs s r \<longleftrightarrow>
     (\<lambda>r t. request_step w dbs (length (gor s)) r t \<or> other_step r t)\<^sup>*\<^sup>* (request_start w ctx dbs s) r"

section \<open>What happens to a goroutine\<close>

definition later :: "sys \<Rightarrow> sys \<Rightarrow> bool" where
  "later s t \<longleftrightarrow> length (gor s) \<le> length (gor t) \<and>
     (\<forall>g < length (gor s). g_db (gor t ! g) = g_db (gor s ! g) \<and>
        (returned s g \<longrightarrow> g_pc (gor t ! g) = g_pc (gor s ! g)) \<and>
        (g_ctx (gor s ! g) \<noteq> None \<longrightarrow> g_ctx (gor t ! g) \<noteq> None) \<and>
        (outcome t g \<noteq> None \<longrightarrow> outcome s g \<noteq> None \<or> g_ctx (gor t ! g) \<noteq> None))"

lemma laterD:
  assumes "later s t" "g < length (gor s)"
  shows "g_db (gor t ! g) = g_db (gor s ! g)" "returned s g \<Longrightarrow> returned t g"
    "returned s g \<Longrightarrow> outcome t g = outcome s g"
    "outcome t g \<noteq> None \<Longrightarrow> (outcome s g \<noteq> None \<longrightarrow> g_ctx (gor s ! g) \<noteq> None) \<Longrightarrow> g_ctx (gor t ! g) \<noteq> None"
  using assms unfolding later_def returned_def outcome_def by auto

lemma later_length: "later s t \<Longrightarrow> length (gor s) \<le> length (gor t)"
  by (simp add: later_def)

text \<open>A step of a goroutine that has not returned changes only where it is and its pools; it returns with an
  error only when its context is cancelled.\<close>

lemma go_step_local:
  assumes "go_step s g d = Some t"
  shows "\<exists>p n. gor t = (gor s)[g := (gor s ! g)\<lparr>g_pc := p, g_pools := n\<rparr>] \<and> \<not> returned s g \<and>
    (\<forall>e. p = Returned (Some e) \<longrightarrow> g_ctx (gor s ! g) \<noteq> None)"
  using assms
proof (cases rule: go_step_cases)
  case (effect e es)
  then show ?thesis
    by (intro exI [of _ "Body es"] exI [of _ "pools_after e (g_pools (gor s ! g))"]) (simp add: returned_def)
qed (auto simp: goto_def set_mu_def returned_def intro!: exI [of _ "g_pools (gor s ! g)"])

lemma later_run:
  assumes "run_step s t"
  shows "later s t"
  using assms
proof cases
  case (run g d)
  obtain p n where t: "gor t = (gor s)[g := (gor s ! g)\<lparr>g_pc := p, g_pools := n\<rparr>]" "\<not> returned s g"
    "\<forall>e. p = Returned (Some e) \<longrightarrow> g_ctx (gor s ! g) \<noteq> None"
    using go_step_local [OF run(2)] by blast
  have "outcome t g \<noteq> None \<Longrightarrow> g_ctx (gor t ! g) \<noteq> None"
    using t run(1) by (auto simp: outcome_def split: pc.splits)
  moreover have "gor t ! g' = gor s ! g'" if "g' \<noteq> g" for g'
    using t(1) that by simp
  moreover have "g_db (gor t ! g) = g_db (gor s ! g)" "g_ctx (gor t ! g) = g_ctx (gor s ! g)"
    using t(1) run(1) by simp_all
  ultimately show ?thesis
    using t(1,2) unfolding later_def outcome_def returned_def by (metis length_list_update order_refl)
qed

lemma later_env: "env_step s t \<Longrightarrow> later s t"
  by (induction rule: env_step.induct)
    (auto simp: later_def nth_append nth_list_update returned_def outcome_def)

section \<open>The invariant\<close>

definition request_inv :: "'a worker \<Rightarrow> Database list \<Rightarrow> gid \<Rightarrow> 'a request \<Rightarrow> bool" where
  "request_inv w dbs b r \<longleftrightarrow> coord_inv (rq_svc r) \<and> b + length dbs \<le> length (gor (rq_svc r)) \<and>
     fan_inv (length dbs) (request_out w dbs b (rq_svc r)) (rq_fan r) \<and>
     (\<forall>i < length dbs. g_db (gor (rq_svc r) ! (b + i)) = db_Name (dbs ! i) \<and>
        (i \<notin> set (pending (rq_fan r)) \<longrightarrow> returned (rq_svc r) (b + i)) \<and>
        (outcome (rq_svc r) (b + i) \<noteq> None \<longrightarrow> g_ctx (gor (rq_svc r) ! (b + i)) \<noteq> None))"

lemma request_inv_later:
  assumes "request_inv w dbs b r" "later (rq_svc r) t" "coord_inv t"
  shows "request_inv w dbs b (r\<lparr>rq_svc := t\<rparr>)"
proof -
  note inv = assms(1) [unfolded request_inv_def]
  have g: "b + i < length (gor (rq_svc r))" if "i < length dbs" for i
    using inv that by simp
  have "request_out w dbs b (rq_svc r) i = request_out w dbs b t i"
    if "i < length dbs" "i \<notin> set (pending (rq_fan r))" for i
    using laterD(3) [OF assms(2) g [OF that(1)]] inv that by (simp add: request_out_def)
  then have "fan_inv (length dbs) (request_out w dbs b t) (rq_fan r)"
    using inv fan_inv_cong by blast
  moreover have "g_db (gor t ! (b + i)) = db_Name (dbs ! i)"
    "i \<notin> set (pending (rq_fan r)) \<Longrightarrow> returned t (b + i)"
    "outcome t (b + i) \<noteq> None \<Longrightarrow> g_ctx (gor t ! (b + i)) \<noteq> None" if "i < length dbs" for i
    using laterD [OF assms(2) g [OF that]] inv that by metis+
  moreover have "b + length dbs \<le> length (gor t)"
    using inv later_length [OF assms(2)] by linarith
  ultimately show ?thesis
    using assms(3) by (simp add: request_inv_def)
qed

lemma request_inv_step:
  assumes "request_inv w dbs b r" "request_step w dbs b r r'"
  shows "request_inv w dbs b r'"
  using assms(2)
proof cases
  case (goroutine_runs t)
  have "coord_inv t"
    using goroutine_runs(2) assms(1) coord_inv_run_step by (auto simp: request_inv_def)
  with goroutine_runs assms(1) show ?thesis
    by (simp add: request_inv_later later_run)
next
  case (result_moves f)
  have "fan_inv (length dbs) (request_out w dbs b (rq_svc r)) f"
    using assms(1) result_moves(2) fan_inv_step unfolding request_inv_def by blast
  with assms(1) result_moves show ?thesis
    by (auto simp: request_inv_def)
qed

lemma request_inv_other:
  assumes "request_inv w dbs b r" "other_step r r'"
  shows "request_inv w dbs b r'"
  using assms(2)
proof cases
  case (others t)
  then show ?thesis
    using assms(1) coord_inv_env_step [OF others(2)] request_inv_later [OF assms(1) later_env]
    by (simp add: request_inv_def)
qed

section \<open>Progress\<close>

definition request_rank :: "'a request \<Rightarrow> nat" where
  "request_rank r = remaining_work (rq_svc r) + fan_rank (rq_fan r)"

text \<open>The receiving loop has ended and no goroutine is left.\<close>

definition request_done :: "'a request \<Rightarrow> bool" where
  "request_done r \<longleftrightarrow> togo (rq_fan r) = 0 \<and> all_returned (rq_svc r)"

lemma request_rank_step: "request_step w dbs b r r' \<Longrightarrow> request_rank r' < request_rank r"
  by (induction rule: request_step.induct)
    (auto simp: request_rank_def fan_rank_step elim!: run_step.cases dest: remaining_work_step)

lemma request_progress:
  assumes "request_inv w dbs b r" "\<not> request_done r"
  shows "\<exists>r'. request_step w dbs b r r'"
proof (cases "all_returned (rq_svc r)")
  case False
  then show ?thesis
    using assms(1) goroutine_progress goroutine_runs unfolding request_inv_def by blast
next
  case True
  have inv: "fan_inv (length dbs) (request_out w dbs b (rq_svc r)) (rq_fan r)"
    using assms(1) by (simp add: request_inv_def)
  then obtain f where "fan_step (length dbs) (request_out w dbs b (rq_svc r)) (rq_fan r) f"
    using fan_progress [OF inv] assms(2) True by (auto simp: request_done_def fan_done_def)
  moreover have "returned (rq_svc r) (b + i)" if "i \<in> set (pending (rq_fan r))" for i
    using assms(1) True fan_inv_pending [OF inv that]
    by (auto simp: request_inv_def all_returned_def returned_def)
  ultimately show ?thesis
    using result_moves by blast
qed

interpretation request: terminating_machine "request_step w dbs b" "request_inv w dbs b" request_rank request_done
  for w :: "'a worker" and dbs b
  by unfold_locales (auto intro: request_inv_step request_rank_step request_progress)

section \<open>From the start to the answer\<close>

lemma start_gor:
  "gor (fold (start_worker w ctx) dbs s) = gor s @ map (\<lambda>db. \<lparr>g_db = db_Name db, g_ctx = ctx,
     g_body = worker_body (fst (w (\<lambda>_. None) (db_Name db))), g_pc = ALock, g_pools = 0\<rparr>) dbs"
  by (induction dbs arbitrary: s) (simp_all add: start_worker_def)

lemma start_reachable:
  "reachable s \<Longrightarrow> (\<And>d. body_ok 0 (worker_body (fst (w (\<lambda>_. None) d)))) \<Longrightarrow>
    reachable (fold (start_worker w ctx) dbs s)"
  by (induction dbs arbitrary: s) (simp_all add: start_worker_def reachable_spawn)

lemma request_inv_start:
  assumes "reachable s" "\<And>d. body_ok 0 (worker_body (fst (w (\<lambda>_. None) d)))"
  shows "request_inv w dbs (length (gor s)) (request_start w ctx dbs s)"
  using reachable_inv [OF start_reachable [of s w ctx dbs, OF assms]] fan_inv_init
  by (auto simp: request_inv_def request_start_def start_gor nth_append outcome_def fan_init_def)

lemma request_reaches_start: "request_reaches w ctx dbs s (request_start w ctx dbs s)"
  by (simp add: request_reaches_def)

lemma request_reaches_steps:
  "(request_step w dbs (length (gor s)))\<^sup>*\<^sup>* r r' \<Longrightarrow> request_reaches w ctx dbs s r \<Longrightarrow> request_reaches w ctx dbs s r'"
  unfolding request_reaches_def by (induction rule: rtranclp_induct) (auto intro: rtranclp.rtrancl_into_rtrancl)

text \<open>The steps of the goroutines cancel no context.\<close>

lemma request_step_ctx:
  "request_step w dbs b r r' \<Longrightarrow> map g_ctx (gor (rq_svc r')) = map g_ctx (gor (rq_svc r))"
proof (induction rule: request_step.induct)
  case (goroutine_runs r t)
  then obtain g p n where "gor t = (gor (rq_svc r))[g := (gor (rq_svc r) ! g)\<lparr>g_pc := p, g_pools := n\<rparr>]"
    using go_step_local by (auto elim!: run_step.cases) blast
  then show ?case
    by (cases "g < length (gor (rq_svc r))") (simp_all add: map_update list_update_same_conv not_less list_update_beyond)
qed simp

lemma request_steps_ctx:
  "(request_step w dbs b)\<^sup>*\<^sup>* r r' \<Longrightarrow> map g_ctx (gor (rq_svc r')) = map g_ctx (gor (rq_svc r))"
  by (induction rule: rtranclp_induct) (simp_all add: request_step_ctx)

text \<open>The outcomes of the permits, by the name of the database.\<close>

definition permits :: "Database list \<Rightarrow> (nat \<Rightarrow> go_error option) \<Rightarrow> string \<Rightarrow> go_error option" where
  "permits dbs out d = (case map_of (zip (map db_Name dbs) (map out [0..<length dbs])) d of Some e \<Rightarrow> e | None \<Rightarrow> None)"

lemma permits_nth: "distinct (map db_Name dbs) \<Longrightarrow> i < length dbs \<Longrightarrow> permits dbs out (db_Name (dbs ! i)) = out i"
  using map_of_zip_nth [of "map db_Name dbs" "map out [0..<length dbs]" i] by (simp add: permits_def)

context database_worker
begin

lemma request_reaches_inv:
  assumes "reachable s" "request_reaches worker ctx dbs s r"
  shows "request_inv worker dbs (length (gor s)) r"
proof -
  have "body_ok 0 (worker_body (fst (worker (\<lambda>_. None) d)))" for d
    by (rule bracketed_body [OF permit_bracketed]) simp
  then have "request_inv worker dbs (length (gor s)) (request_start worker ctx dbs s)"
    by (rule request_inv_start [OF assms(1)])
  with assms(2) show ?thesis
    unfolding request_reaches_def
    by (induction rule: rtranclp_induct) (auto intro: request_inv_step request_inv_other)
qed

text \<open>When the receiving loop has ended, the request has the value of \<open>forEachDatabase\<close> for the order in which
  the results arrived and the permits its goroutines got.\<close>

lemma request_answer:
  assumes "request_inv worker dbs b r" "togo (rq_fan r) = 0" "distinct (map db_Name dbs)"
    and acq: "acq = permits dbs (\<lambda>i. outcome (rq_svc r) (b + i))"
  shows "\<exists>sched. is_schedule sched dbs \<and>
    fan_return (length dbs) (rq_fan r) = forEachDatabase sched dbs (\<lambda>d. snd (worker acq d))"
proof -
  have inv: "fan_inv (length dbs) (request_out worker dbs b (rq_svc r)) (rq_fan r)"
    using assms(1) by (simp add: request_inv_def)
  obtain sched where sched: "mset sched = mset [0..<length dbs]"
    "fan_in (map (request_out worker dbs b (rq_svc r)) sched) [] [] = (results (rq_fan r), errs (rq_fan r))"
    using fan_inv_done(3) [OF inv assms(2)] by blast
  have "request_out worker dbs b (rq_svc r) i = snd (worker acq (db_Name (dbs ! i)))" if "i < length dbs" for i
    unfolding request_out_def using own_permit permits_nth [OF assms(3) that] acq by metis
  moreover have "i < length dbs" if "i \<in> set sched" for i
    using mset_eq_setD [OF sched(1)] that by auto
  ultimately have "map (request_out worker dbs b (rq_svc r)) sched = map (\<lambda>i. snd (worker acq (db_Name (dbs ! i)))) sched"
    by simp
  with sched show ?thesis
    by (auto simp: is_schedule_def fan_return_def forEachDatabase_def)
qed

end

section \<open>The table request\<close>

lemma tables_request_answer:
  assumes "reachable s" "snd (ListDatabases x st) = Inr dbs" "distinct (map db_Name dbs)"
    and "request_reaches (listTablesForDatabase x st) ctx dbs s r" "togo (rq_fan r) = 0"
  shows "\<exists>sched acq. is_schedule sched dbs \<and> fan_return (length dbs) (rq_fan r) = ListTables x st acq sched \<and>
    (\<forall>i < length dbs. g_db (gor (rq_svc r) ! (length (gor s) + i)) = db_Name (dbs ! i) \<and>
       (\<exists>e. g_pc (gor (rq_svc r) ! (length (gor s) + i)) = Returned e \<and> acq (db_Name (dbs ! i)) = e \<and>
         (e \<noteq> None \<longrightarrow> g_ctx (gor (rq_svc r) ! (length (gor s) + i)) \<noteq> None)))"
proof -
  let ?b = "length (gor s)"
  define acq where "acq = permits dbs (\<lambda>i. outcome (rq_svc r) (?b + i))"
  have inv: "request_inv (listTablesForDatabase x st) dbs ?b r"
    by (rule tables_worker.request_reaches_inv [OF assms(1,4)])
  obtain sched where sched: "is_schedule sched dbs"
    "fan_return (length dbs) (rq_fan r) = forEachDatabase sched dbs (\<lambda>d. snd (listTablesForDatabase x st acq d))"
    using tables_worker.request_answer [OF inv assms(5,3) acq_def] by blast
  then have "fan_return (length dbs) (rq_fan r) = ListTables x st acq sched"
    by (simp add: ListTables_def assms(2) split: sum.split)
  moreover have "g_db (gor (rq_svc r) ! (?b + i)) = db_Name (dbs ! i) \<and>
      (\<exists>e. g_pc (gor (rq_svc r) ! (?b + i)) = Returned e \<and> acq (db_Name (dbs ! i)) = e \<and>
        (e \<noteq> None \<longrightarrow> g_ctx (gor (rq_svc r) ! (?b + i)) \<noteq> None))" if i: "i < length dbs" for i
  proof -
    have "pending (rq_fan r) = []"
      using inv fan_inv_done(1) assms(5) unfolding request_inv_def by blast
    then have "returned (rq_svc r) (?b + i)" "g_db (gor (rq_svc r) ! (?b + i)) = db_Name (dbs ! i)"
      "outcome (rq_svc r) (?b + i) \<noteq> None \<longrightarrow> g_ctx (gor (rq_svc r) ! (?b + i)) \<noteq> None"
      using inv i by (auto simp: request_inv_def)
    then show ?thesis
      using permits_nth [OF assms(3) i] by (auto simp: acq_def returned_def outcome_def)
  qed
  ultimately show ?thesis
    using sched(1) by blast
qed

section \<open>Properties\<close>

text \<open>C5: every list request returns. Take any reachable state of the service, a request of any worker that
  keeps the contract of the coordinator, and let the rest of the service do what it likes for a while.
  From then on at most \<open>request_rank\<close> steps of goroutines and of the receiving loop are possible, and
  they only stop when the receiving loop has ended and every goroutine has returned.\<close>

theorem request_returns:
  assumes "database_worker w db_of" "reachable s" "request_reaches w ctx dbs s r"
    and "(request_step w dbs (length (gor s)) ^^ k) r r'"
  shows "k + request_rank r' \<le> request_rank r \<and>
    ((\<exists>t. request_step w dbs (length (gor s)) r' t) \<or>
      togo (rq_fan r') = 0 \<and> pending (rq_fan r') = [] \<and> all_returned (rq_svc r'))"
proof -
  have inv: "request_inv w dbs (length (gor s)) r"
    by (rule database_worker.request_reaches_inv [OF assms(1-3)])
  then have inv': "request_inv w dbs (length (gor s)) r'"
    using request.inv_steps relpowp_imp_rtranclp [OF assms(4)] by blast
  then have fan: "fan_inv (length dbs) (request_out w dbs (length (gor s)) (rq_svc r')) (rq_fan r')"
    by (simp add: request_inv_def)
  have "k + request_rank r' \<le> request_rank r"
    by (rule request.run_length [OF assms(4) inv])
  moreover have "togo (rq_fan r') = 0 \<and> pending (rq_fan r') = [] \<and> all_returned (rq_svc r')"
    if "\<nexists>t. request_step w dbs (length (gor s)) r' t"
    using request.stuck_final [OF inv' that] fan_inv_done(1) [OF fan] by (simp add: request_done_def)
  ultimately show ?thesis by blast
qed

theorem request_returns_witness:
  "\<exists>t. request_step (listTablesForDatabase demo_pgx demo_store) demo_dbs 0
     (request_start (listTablesForDatabase demo_pgx demo_store) None demo_dbs init_sys) t"
proof -
  let ?w = "listTablesForDatabase demo_pgx demo_store"
  have "length demo_dbs = 2" "gor init_sys = []"
    by (simp_all add: demo_dbs_def init_sys_def)
  then show ?thesis
    using request_returns [OF tables_worker.database_worker_axioms reachable_init request_reaches_start,
        where k = 0 and dbs = demo_dbs and ctx = None]
    by (auto simp: request_start_def fan_init_def)
qed

text \<open>C6: the answer of a table request under all interleavings. Whatever the goroutines of this and the other
  requests do and whenever contexts are cancelled, when the receiving loop has ended the value returned
  is \<open>ListTables\<close> for the order in which the results arrived and for what \<open>Acquire\<close> returned to each
  goroutine, which is an error only if the context of that goroutine was cancelled.\<close>

theorem ListTables_concurrent:
  assumes "reachable s" "snd (ListDatabases x st) = Inr dbs" "distinct (map db_Name dbs)"
    and "request_reaches (listTablesForDatabase x st) ctx dbs s r" "togo (rq_fan r) = 0"
  shows "\<exists>sched acq. is_schedule sched dbs \<and> fan_return (length dbs) (rq_fan r) = ListTables x st acq sched \<and>
    (\<forall>i < length dbs. g_db (gor (rq_svc r) ! (length (gor s) + i)) = db_Name (dbs ! i) \<and>
       (\<exists>e. g_pc (gor (rq_svc r) ! (length (gor s) + i)) = Returned e \<and> acq (db_Name (dbs ! i)) = e \<and>
         (e \<noteq> None \<longrightarrow> g_ctx (gor (rq_svc r) ! (length (gor s) + i)) \<noteq> None)))"
  using assms by (rule tables_request_answer)

text \<open>A request for the tables of two databases runs to its end.\<close>

theorem ListTables_concurrent_witness:
  "\<exists>r sched acq. request_reaches (listTablesForDatabase demo_pgx demo_store) None demo_dbs init_sys r \<and>
     togo (rq_fan r) = 0 \<and> is_schedule sched demo_dbs \<and>
     fan_return 2 (rq_fan r) = ListTables demo_pgx demo_store acq sched"
proof -
  let ?w = "listTablesForDatabase demo_pgx demo_store"
  have dbs: "distinct (map db_Name demo_dbs)" "length demo_dbs = 2"
    by (simp_all add: demo_dbs_def)
  have "request_inv ?w demo_dbs (length (gor init_sys)) (request_start ?w None demo_dbs init_sys)"
    by (rule tables_worker.request_reaches_inv [OF reachable_init request_reaches_start])
  then obtain r where "(request_step ?w demo_dbs (length (gor init_sys)))\<^sup>*\<^sup>* (request_start ?w None demo_dbs init_sys) r"
    "request_done r"
    using request.reaches_final by blast
  then have r: "request_reaches ?w None demo_dbs init_sys r" "togo (rq_fan r) = 0"
    using request_reaches_steps [OF _ request_reaches_start] by (simp_all add: request_done_def)
  show ?thesis
    using ListTables_concurrent [OF reachable_init demo_ListDatabases dbs(1) r] r dbs(2) by auto
qed

end
