(* ===== verification/Go_Filepath.thy ===== *)
theory Go_Filepath
  imports Go_Prelude
begin

text \<open>
  The part of \<open>path/filepath\<close> (on Unix) that the test support uses: \<open>Clean\<close>, \<open>Dir\<close> and \<open>Join\<close>. Going from a
  directory to its parent until nothing changes ends (\<open>Dir_measure\<close>): the parent of a path is shorter,
  except that the parent of a path without slash is \<open>.\<close>.
\<close>

fun split_slash :: "string \<Rightarrow> string list" where
  "split_slash [] = [[]]"
| "split_slash (c # s) =
     (if c = CHR ''/'' then [] # split_slash s
      else (c # hd (split_slash s)) # tl (split_slash s))"

fun join_slash :: "string list \<Rightarrow> string" where
  "join_slash [] = []"
| "join_slash [c] = c"
| "join_slash (c # cs) = c @ ''/'' @ join_slash cs"

text \<open>One component of a path, the components kept so far being a stack: the empty component and \<open>.\<close> are
  dropped, \<open>..\<close> removes the component before it, is dropped at the root, and kept at the start of a
  relative path.\<close>

definition clean_step :: "bool \<Rightarrow> string list \<Rightarrow> string \<Rightarrow> string list" where
  "clean_step rooted stack c =
     (if c = [] \<or> c = ''.'' then stack
      else if c = ''..'' then
        (case stack of
           prev # rest \<Rightarrow> if prev = ''..'' then c # stack else rest
         | [] \<Rightarrow> if rooted then [] else [c])
      else c # stack)"

definition Clean :: "string \<Rightarrow> string" where
  "Clean p =
     (if p = [] then ''.''
      else let rooted = (hd p = CHR ''/'');
               body = join_slash (rev (foldl (clean_step rooted) [] (split_slash p))) in
        if rooted then CHR ''/'' # body else if body = [] then ''.'' else body)"

definition Dir :: "string \<Rightarrow> string" where
  "Dir p = Clean (rev (dropWhile (\<lambda>c. c \<noteq> CHR ''/'') (rev p)))"

definition Join :: "string list \<Rightarrow> string" where
  "Join elems =
     (case dropWhile (\<lambda>e. e = []) elems of [] \<Rightarrow> [] | es \<Rightarrow> Clean (join_slash es))"

section \<open>Lengths\<close>

definition weight :: "string list \<Rightarrow> nat" where
  "weight cs = sum_list (map (\<lambda>c. Suc (length c)) cs)"

lemma weight_simps [simp]:
  "weight [] = 0" "weight (c # cs) = Suc (length c + weight cs)" "weight (xs @ ys) = weight xs + weight ys"
  "weight (rev xs) = weight xs"
  by (simp_all add: weight_def) (simp add: rev_map [symmetric])

lemma split_slash_neq_Nil [simp]: "split_slash s \<noteq> []"
  by (induction s) auto

lemma weight_split_slash: "weight (split_slash s) = Suc (length s)"
proof (induction s)
  case (Cons c s)
  then show ?case by (cases "split_slash s") auto
qed simp

lemma split_slash_snoc: "split_slash (q @ [CHR ''/'']) = split_slash q @ [[]]"
proof (induction q)
  case (Cons c q)
  then show ?case by (cases "split_slash q") auto
qed simp

lemma length_join_slash: "length (join_slash cs) = weight cs - 1"
  by (induction cs rule: join_slash.induct) auto

lemma weight_clean_step: "weight (clean_step r stack c) \<le> weight stack + (if c = [] then 0 else Suc (length c))"
  by (auto simp: clean_step_def split: list.splits)

lemma weight_clean: "weight (foldl (clean_step r) stack cs) \<le> weight stack + weight (filter (\<lambda>c. c \<noteq> []) cs)"
proof (induction cs arbitrary: stack)
  case (Cons c cs)
  have "weight (foldl (clean_step r) stack (c # cs)) \<le> weight (clean_step r stack c) + weight (filter (\<lambda>c. c \<noteq> []) cs)"
    using Cons.IH [of "clean_step r stack c"] by (simp only: foldl_Cons)
  also have "\<dots> \<le> weight stack + weight (filter (\<lambda>c. c \<noteq> []) (c # cs))"
    using weight_clean_step [of r stack c] by (cases "c = []") auto
  finally show ?case .
qed simp

lemma weight_filter: "weight (filter P cs) \<le> weight cs"
  by (induction cs) auto

lemma length_Clean:
  assumes "q \<noteq> []"
  shows "length (Clean (q @ [CHR ''/''])) < length (q @ [CHR ''/''])"
proof -
  let ?r = "hd q = CHR ''/''"
  let ?ks = "foldl (clean_step ?r) [] (split_slash q @ [[]])"
  have ks: "weight ?ks \<le> weight (filter (\<lambda>c. c \<noteq> []) (split_slash q))"
    using weight_clean [of ?r "[]" "split_slash q @ [[]]"] by simp
  have "weight (filter (\<lambda>c. c \<noteq> []) (split_slash q)) \<le> (if ?r then length q else Suc (length q))"
  proof (cases q)
    case (Cons c s)
    then show ?thesis
      using weight_filter [of "\<lambda>c. c \<noteq> []" "split_slash s"] weight_filter [of "\<lambda>c. c \<noteq> []" "split_slash q"]
        weight_split_slash [of s] weight_split_slash [of q] by auto
  qed (use assms in simp)
  with ks have "weight ?ks \<le> (if ?r then length q else Suc (length q))" by linarith
  moreover have "length q \<ge> 1"
    using assms by (simp add: Suc_le_eq)
  ultimately show ?thesis
    using assms by (auto simp: Clean_def Let_def split_slash_snoc length_join_slash)
qed

definition dir_measure :: "string \<Rightarrow> nat" where
  "dir_measure p = (if p = ''.'' then 0 else Suc (length p))"

lemma Dir_measure:
  assumes "Dir p \<noteq> p"
  shows "dir_measure (Dir p) < dir_measure p"
proof -
  let ?rest = "dropWhile (\<lambda>c. c \<noteq> CHR ''/'') (rev p)"
  consider "?rest = []" | q where "?rest = CHR ''/'' # q"
    using hd_dropWhile [of "\<lambda>c. c \<noteq> CHR ''/''" "rev p"] by (cases ?rest) auto
  then show ?thesis
  proof cases
    case 1
    then have "Dir p = ''.''"
      by (simp add: Dir_def Clean_def)
    with assms show ?thesis by (auto simp: dir_measure_def)
  next
    case 2
    have len: "Suc (length q) \<le> length p"
      using length_dropWhile_le [of "\<lambda>c. c \<noteq> CHR ''/''" "rev p"] 2 by simp
    have dir: "Dir p = Clean (rev q @ [CHR ''/''])"
      using 2 by (simp add: Dir_def)
    have dot: "p \<noteq> ''.''"
      using 2 by auto
    show ?thesis
    proof (cases "q = []")
      case True
      then have root: "Dir p = ''/''"
        using dir by (simp add: Clean_def clean_step_def)
      have "p \<noteq> []" "length p \<noteq> 1"
        using 2 True assms root by (auto simp: length_Suc_conv split: if_splits)
      then have "length p > 1"
        by (cases p) auto
      with root dot show ?thesis
        by (simp add: dir_measure_def)
    next
      case False
      then have "length (Dir p) < length p"
        using length_Clean [of "rev q"] len dir by simp
      with dot show ?thesis
        by (auto simp: dir_measure_def)
    qed
  qed
qed

end
