(* ===== verification/Test_Grpc.thy ===== *)
theory Test_Grpc
  imports Go_Prelude
begin

text \<open>
  \<open>internal/testutil/grpc.go\<close>: the in-memory connection of the handler tests.

  The server, the client connection and the goroutine that serves are a small machine. The parameter
  \<open>dial\<close> is the outcome of \<open>grpc.NewClient\<close>. A \<open>Serve\<close> that is running returns an error of its own accord,
  or nil once \<open>Stop\<close> was called, which is what the package documents; the parameter \<open>late\<close> is what \<open>Serve\<close>
  returns when it is only called after \<open>Stop\<close>. The test itself may end at any time after \<open>DialBufconn\<close>
  returned, also before the goroutine has started to run.
\<close>

datatype serve_state =
    NotStarted                        \<comment> \<open>no goroutine\<close>
  | Spawned                           \<comment> \<open>the goroutine has not called \<open>Serve\<close> yet\<close>
  | ServeRunning
  | ServeReturned
  | ServePanicked go_error

record bufconn_test =
  registered :: bool                  \<comment> \<open>the service is registered with the server\<close>
  serving :: serve_state              \<comment> \<open>the goroutine\<close>
  conn_open :: bool
  stopped :: bool                     \<comment> \<open>\<open>s.Stop\<close> was called\<close>
  cleanup_set :: bool
  fatal :: "go_error option"

definition bufconn_init :: bufconn_test where
  "bufconn_init = \<lparr>registered = False, serving = NotStarted, conn_open = False, stopped = False,
     cleanup_set = False, fatal = None\<rparr>"

text \<open>\<open>DialBufconn\<close> up to its return or to \<open>t.Fatalf\<close>, which ends the test.\<close>

definition DialBufconn :: "go_error option \<Rightarrow> bufconn_test \<Rightarrow> bufconn_test" where
  "DialBufconn dial st =
     (let st = st\<lparr>registered := True\<rparr>;
          st = st\<lparr>serving := Spawned\<rparr> in
      case dial of
        Some err \<Rightarrow> st\<lparr>fatal := Some err\<rparr>
      | None \<Rightarrow> st\<lparr>conn_open := True, cleanup_set := True\<rparr>)"

text \<open>The function given to \<open>t.Cleanup\<close>, in its order.\<close>

definition bufconn_cleanup :: "bufconn_test \<Rightarrow> bufconn_test" where
  "bufconn_cleanup st = (let st = st\<lparr>conn_open := False\<rparr> in st\<lparr>stopped := True\<rparr>)"

text \<open>The return of \<open>Serve\<close>: the goroutine panics with an error.\<close>

definition serve_returns :: "go_error option \<Rightarrow> serve_state" where
  "serve_returns res = (case res of None \<Rightarrow> ServeReturned | Some err \<Rightarrow> ServePanicked err)"

text \<open>The end of the test, and the goroutine. A panic ends the whole test program.\<close>

inductive bufconn_step :: "go_error option \<Rightarrow> bufconn_test \<Rightarrow> bufconn_test \<Rightarrow> bool" for late where
  test_end: "cleanup_set st \<Longrightarrow> \<nexists>err. serving st = ServePanicked err \<Longrightarrow>
    bufconn_step late st ((bufconn_cleanup st)\<lparr>cleanup_set := False\<rparr>)"
| serve_called: "serving st = Spawned \<Longrightarrow> \<not> stopped st \<Longrightarrow> bufconn_step late st (st\<lparr>serving := ServeRunning\<rparr>)"
| serve_late: "serving st = Spawned \<Longrightarrow> stopped st \<Longrightarrow> bufconn_step late st (st\<lparr>serving := serve_returns late\<rparr>)"
| serve_stopped: "serving st = ServeRunning \<Longrightarrow> stopped st \<Longrightarrow>
    bufconn_step late st (st\<lparr>serving := serve_returns None\<rparr>)"
| serve_failed: "serving st = ServeRunning \<Longrightarrow> \<not> stopped st \<Longrightarrow>
    bufconn_step late st (st\<lparr>serving := serve_returns (Some err)\<rparr>)"

inductive_cases bufconn_stepE: "bufconn_step late s t"

text \<open>The states of a test whose connection was made: what the cleanup function does has not happened while it
  is registered, \<open>Serve\<close> returned only after \<open>Stop\<close>, and a panic after \<open>Stop\<close> has the error of the late call.\<close>

definition bufconn_inv :: "go_error option \<Rightarrow> bufconn_test \<Rightarrow> bool" where
  "bufconn_inv late s \<longleftrightarrow> registered s \<and> fatal s = None \<and> conn_open s = cleanup_set s \<and>
     stopped s = (\<not> cleanup_set s) \<and> serving s \<noteq> NotStarted \<and> (serving s = ServeReturned \<longrightarrow> stopped s) \<and>
     (\<forall>err. serving s = ServePanicked err \<longrightarrow> stopped s \<longrightarrow> late = Some err)"

text \<open>The end of a run: everything is closed and the goroutine has returned, or it has panicked.\<close>

definition bufconn_over :: "go_error option \<Rightarrow> bufconn_test \<Rightarrow> bool" where
  "bufconn_over late s \<longleftrightarrow> \<not> conn_open s \<and> stopped s \<and> serving s = ServeReturned \<or>
     (\<exists>err. serving s = ServePanicked err \<and> (stopped s \<longrightarrow> late = Some err))"

fun serve_left :: "serve_state \<Rightarrow> nat" where
  "serve_left Spawned = 2"
| "serve_left ServeRunning = 1"
| "serve_left st = 0"

definition bufconn_left :: "bufconn_test \<Rightarrow> nat" where
  "bufconn_left s = (if cleanup_set s then 1 else 0) + serve_left (serving s)"

lemma bufconn_progress: "bufconn_inv late s \<Longrightarrow> \<not> bufconn_over late s \<Longrightarrow> \<exists>t. bufconn_step late s t"
  using bufconn_step.intros [of s late]
  by (cases "serving s") (auto simp: bufconn_inv_def bufconn_over_def)

interpretation bufconn: terminating_machine "bufconn_step late" "bufconn_inv late" bufconn_left "bufconn_over late" for late
  by unfold_locales
    (auto simp: bufconn_inv_def bufconn_left_def bufconn_cleanup_def serve_returns_def
      intro!: bufconn_progress elim!: bufconn_stepE split: option.splits)

lemma bufconn_inv_start: "bufconn_inv late (DialBufconn None bufconn_init)"
  by (simp add: bufconn_inv_def DialBufconn_def bufconn_init_def)

text \<open>After a failed dial there is nothing that could stop the server.\<close>

definition bufconn_left_running :: "go_error \<Rightarrow> bufconn_test \<Rightarrow> bool" where
  "bufconn_left_running e s \<longleftrightarrow> fatal s = Some e \<and> \<not> stopped s \<and> \<not> cleanup_set s"

interpretation bufconn_failed: machine "bufconn_step late" "bufconn_left_running e" for late e
  by unfold_locales (auto simp: bufconn_left_running_def elim!: bufconn_stepE)

text \<open>C40: the life of an in-memory connection. After \<open>DialBufconn\<close> has returned a connection every run ends,
  after at most three steps, and it can only end either with the connection closed, the server stopped
  and the goroutine returned, or with a panic of the goroutine: an error of \<open>Serve\<close> during the test, or,
  after it, the error of a \<open>Serve\<close> that was only called after \<open>Stop\<close>. When \<open>grpc.NewClient\<close> fails, no
  cleanup function was registered, and no run ever stops the server.\<close>

theorem DialBufconn_life:
  "((bufconn_step late ^^ k) (DialBufconn None bufconn_init) s \<longrightarrow>
      k \<le> 3 \<and> ((\<exists>t. bufconn_step late s t) \<or> \<not> conn_open s \<and> stopped s \<and> serving s = ServeReturned \<or>
        (\<exists>err. serving s = ServePanicked err \<and> (stopped s \<longrightarrow> late = Some err)))) \<and>
   ((bufconn_step late ^^ k) (DialBufconn (Some e) bufconn_init) s \<longrightarrow> fatal s = Some e \<and> \<not> stopped s)"
proof (intro conjI impI)
  assume run: "(bufconn_step late ^^ k) (DialBufconn None bufconn_init) s"
  have "bufconn_left (DialBufconn None bufconn_init) = 3"
    by (simp add: bufconn_left_def DialBufconn_def bufconn_init_def)
  then show "k \<le> 3"
    using bufconn.run_length [OF run bufconn_inv_start] by simp
  have "bufconn_inv late s"
    using bufconn.inv_steps [OF relpowp_imp_rtranclp [OF run] bufconn_inv_start] .
  then show "(\<exists>t. bufconn_step late s t) \<or> \<not> conn_open s \<and> stopped s \<and> serving s = ServeReturned \<or>
        (\<exists>err. serving s = ServePanicked err \<and> (stopped s \<longrightarrow> late = Some err))"
    using bufconn.progress unfolding bufconn_over_def by blast
next
  assume run: "(bufconn_step late ^^ k) (DialBufconn (Some e) bufconn_init) s"
  have "bufconn_left_running e (DialBufconn (Some e) bufconn_init)"
    by (simp add: bufconn_left_running_def DialBufconn_def bufconn_init_def)
  then have "bufconn_left_running e s"
    using bufconn_failed.inv_steps [OF relpowp_imp_rtranclp [OF run]] by blast
  then show "fatal s = Some e" "\<not> stopped s"
    by (simp_all add: bufconn_left_running_def)
qed

text \<open>A test that ends normally.\<close>

definition bufconn_end :: bufconn_test where
  "bufconn_end = \<lparr>registered = True, serving = ServeReturned, conn_open = False, stopped = True,
     cleanup_set = False, fatal = None\<rparr>"

lemma bufconn_end_reached: "(bufconn_step late ^^ 3) (DialBufconn None bufconn_init) bufconn_end"
proof -
  let ?s = "DialBufconn None bufconn_init"
  let ?s1 = "?s\<lparr>serving := ServeRunning\<rparr>"
  let ?s2 = "(bufconn_cleanup ?s1)\<lparr>cleanup_set := False\<rparr>"
  note defs = DialBufconn_def bufconn_init_def bufconn_cleanup_def
  have "bufconn_step late ?s ?s1" by (rule serve_called) (simp_all add: defs)
  moreover have "bufconn_step late ?s1 ?s2" by (rule test_end) (simp_all add: defs)
  moreover have "bufconn_step late ?s2 (?s2\<lparr>serving := serve_returns None\<rparr>)"
    by (rule serve_stopped) (simp_all add: defs)
  moreover have "?s2\<lparr>serving := serve_returns None\<rparr> = bufconn_end"
    by (simp add: defs serve_returns_def bufconn_end_def)
  ultimately show ?thesis
    by (simp only: numeral_3_eq_3 relpowp.simps) blast
qed

theorem DialBufconn_life_witness:
  "(bufconn_step None ^^ 3) (DialBufconn None bufconn_init) bufconn_end \<and> stopped bufconn_end \<and>
   \<not> conn_open bufconn_end \<and> \<not> stopped (DialBufconn (Some (ErrorString ''bad target'')) bufconn_init)"
proof -
  let ?e = "ErrorString ''bad target''"
  have "(\<exists>t. bufconn_step None bufconn_end t) \<or> \<not> conn_open bufconn_end \<and> stopped bufconn_end"
    using DialBufconn_life [of 3 None bufconn_end ?e] bufconn_end_reached [of None]
    by (auto simp: bufconn_end_def)
  moreover have "\<not> stopped (DialBufconn (Some ?e) bufconn_init)"
    using DialBufconn_life [of 0 None "DialBufconn (Some ?e) bufconn_init" ?e] by simp
  moreover have "\<nexists>t. bufconn_step None bufconn_end t"
    by (auto simp: bufconn_end_def elim: bufconn_stepE)
  ultimately show ?thesis
    using bufconn_end_reached by blast
qed

end
