(* ===== verification/Other_Programs.thy ===== *)
theory Other_Programs
  imports Main
begin

text \<open>
  \<open>cmd/api-service\<close> and \<open>cmd/collector\<close>: programs that are placeholders so far. They print what they are, write
  a line to the log and exit. The result is the list of what they write, in order, and the exit status.
\<close>

datatype printed = Println string | LogPrintln string

definition api_service_main :: "printed list \<times> nat" where
  "api_service_main =
     ([Println ''PostgreSQL Inventory API Service'', LogPrintln ''API service starting...''], 0)"

definition collector_main :: "printed list \<times> nat" where
  "collector_main =
     ([Println ''PostgreSQL Inventory Collector'', LogPrintln ''Collector service starting...''], 0)"

end
