(* ===== verification/Spec2Isabelle.thy ===== *)
theory Spec2Isabelle
  imports Extractor_Main Pg_Server_Info Concurrent_Request Test_Postgres Test_Grpc Other_Programs
begin

text \<open>
  The verification of the extractor of pg-inventory: a gRPC service that runs beside a PostgreSQL server and
  reports what its databases contain. Paths below are relative to the repository.

  \<^bold>\<open>The program.\<close> \<open>cmd/extractor\<close> reads the command line (\<open>internal/extractor/config.go\<close>), opens a pool to the
  default database, loads the store (\<open>internal/extractor/store\<close>) and serves requests
  (\<open>internal/extractor/server.go\<close>). A list request asks the store, which lists the databases and starts one
  goroutine per database (\<open>forEachDatabase\<close>). Each worker first takes the permit of its database from the
  connection coordinator, so that there is at most one connection to a database, opens a pool, runs one
  SQL statement, scans the rows into domain types (\<open>internal/extractor/types\<close>) and gives the permit back.
  The handler converts the result into the messages of \<open>api/extractor/v1/extractor.proto\<close>. Backups come
  from the JSON report of the program pgbackrest.

  \<^bold>\<open>The theories\<close>, from the bottom up:

  \<^item> \<open>Go_Prelude\<close>: words, byte strings, errors (\<open>go_error\<close>, with what \<open>%w\<close> wraps), results as sums, traces of
    effects with deferred calls, and the locales \<open>machine\<close> and \<open>terminating_machine\<close> for state machines.
  \<^item> The parts of the Go library the program rests on: \<open>Go_Regexp\<close> (regexp), \<open>Go_Json\<close> and \<open>Go_Unmarshal\<close>
    (encoding/json: the scanner, and the decoding driven by types; the locale \<open>go_type\<close> ties a Go type to
    an Isabelle one), \<open>Net_Url\<close> (net/url), \<open>Go_Flag\<close> (flag, strconv.ParseInt), \<open>Go_Filepath\<close> (path/filepath).
  \<^item> \<open>Connection_Coordinator\<close>: \<open>coordinator.go\<close>. Goroutines as program points, \<open>go_step\<close> as the atomic actions of
    \<open>Acquire\<close> and \<open>Release\<close> on the mutex, the map and the channels.
  \<^item> \<open>Domain_Types\<close>: \<open>types.go\<close> and the messages; the locale \<open>lossless\<close> is the contract of a conversion.
  \<^item> \<open>Fan_Out\<close>: \<open>forEachDatabase\<close>, as a function of the order of arrival and as the concurrent program.
  \<^item> \<open>Pg_Store\<close>: \<open>store.go\<close>. The driver is the parameter \<open>pgx\<close>; the locales \<open>database_worker\<close> and
    \<open>naming_worker\<close> are the contract of a worker, interpreted for every worker of the store.
  \<^item> \<open>Pg_Tables\<close>: \<open>tables.go\<close>; \<open>Pgbackrest\<close>: \<open>pgbackrest.go\<close>; \<open>Extractor_Server\<close>: \<open>server.go\<close>, the locale
    \<open>list_rpc\<close> joining a worker and a conversion.
  \<^item> \<open>Pg_Catalog\<close>, \<open>Pg_Jsonb\<close>, \<open>Pg_Table_Query\<close>, \<open>Pg_Table_Catalog\<close>, \<open>Pg_Catalog_Server\<close>: the SQL statements of
    \<open>store.go\<close> and \<open>tables.go\<close> as queries over the system catalogs, the JSON documents they build, what
    should be reported of a catalog, and the contract of a driver whose server answers from catalogs
    (\<open>catalog_driver\<close>, \<open>table_driver\<close>), interpreted for a concrete driver. \<open>Pg_Server_Info\<close>: the statement of
    \<open>GetServerInfo\<close> over the state of the server (\<open>server_driver\<close>).
  \<^item> \<open>Concurrent_Request\<close>: a list request as the goroutines of the coordinator and the fan-out joined in one
    machine, with the rest of the service in between.
  \<^item> \<open>Extractor_Config\<close>: \<open>config.go\<close>; \<open>Extractor_Main\<close>: \<open>main.go\<close>, \<open>prod.go\<close> and \<open>dev.go\<close>.
  \<^item> \<open>Test_Postgres\<close>, \<open>Test_Grpc\<close>: the test support in \<open>internal/testutil\<close>.
  \<^item> \<open>Other_Programs\<close>: \<open>cmd/api-service\<close> and \<open>cmd/collector\<close>, placeholders that print a line and exit.
  \<^item> This theory: the goroutines of the whole service, and the properties that span components.

  \<^bold>\<open>What is shown.\<close>

  \<^item> Concurrency: the coordinator refines one abstract lock per database; the service never has two
    pools of workers open for one database name, never deadlocks, and gives back every permit (the exclusion
    is by the name that the worker was given: the store's own pool to the default database takes no permit,
    and the names \<open>/x\<close> and \<open>x\<close> share a connection string but not a permit); a list request
    returns whatever else happens, leaves no goroutine behind, and its value is the functional model
    (\<open>ListTables\<close>, over \<open>forEachDatabase\<close>) for the order of arrival and the outcomes of \<open>Acquire\<close>.
  \<^item> Completeness of the lists: a successful response has the rows of every database exactly once, an error
    of any database is an error of the list; with a server that answers from its catalogs, the
    response of a table request that runs concurrently with others, decoded by a client, is exactly the
    tables of the catalogs; the other lists are the catalogs' schemas, sequences, functions and
    extensions that pass the filters; \<open>GetServerInfo\<close> reports the state of the server.
  \<^item> Decoding: what \<open>parseBackrestInfo\<close> and the table worker accept and return is characterised by a relation
    between values and JSON texts (\<open>describes\<close>), with a round trip and the typing of the results.
  \<^item> Configuration and start: the accepted command lines, the range of the port, the accepted SSL settings,
    the connection strings (read back without loss), when the service starts, and its exit status.
  \<^item> Errors: the status codes, wrapped causes, the panic of \<open>tableToProto\<close>.
  \<^item> Test support: the set-up executes its script and closes its pools on every path; who terminates the
    container; \<open>findModuleRoot\<close> ends at the nearest \<open>go.mod\<close>.

  Several theorems record behaviour that is probably not intended: the iteration error that
  \<open>ListDatabases\<close> ignores, SSL modes that are accepted and dropped, database names with a leading slash,
  the version reported for a backup, exit status 0 after a failed \<open>Serve\<close>, user schemas hidden by an
  unescaped underscore, no list of extensions when one has no default version, no server information after
  timeline 127, and containers that are left running.

  \<^bold>\<open>Bounds.\<close> There is no fuel: every function is total, by a measure where the recursion is not structural
  (\<open>Parse\<close>, \<open>like\<close>, \<open>findModuleRoot\<close>), and the concurrent programs are step relations with a rank. Machine
  integers keep their width; \<open>strconv\<close> has its overflow tests, which are shown to be exact. JSON documents
  nest at most 10000 deep (\<open>maxNestingDepth\<close>), the limit of the library; deeper documents are errors.

  \<^bold>\<open>Parameters.\<close> The driver \<open>pgx\<close>, the file system, the program pgbackrest, Docker (testcontainers) and the
  listening socket are arguments of the definitions. Properties that need something of them say so as
  hypotheses: the contracts \<open>catalog_driver\<close>, \<open>table_driver\<close> and \<open>server_driver\<close> state that the server answers
  a statement with its rows and that scans deliver them, and are fulfilled by the concrete drivers
  \<open>catalog_pgx\<close> and \<open>server_pgx\<close>.

  \<^bold>\<open>Not modelled.\<close> The DDL constants in \<open>store_integration_test_ddl.go\<close>, which are data of the tests; the
  generated gRPC code and the wire format, which are not in the repository; the layout of log lines and
  the text of the library's own errors. Cancellation of a query in the middle of its rows appears only
  as the errors the driver may return at any call.
\<close>

section \<open>The service\<close>

text \<open>
  The goroutines of the whole service. A request starts one goroutine per database with the body of one
  of the workers; the driver may answer every call differently, so the body is that of the worker for
  some driver \<open>x\<close> of the set \<open>X\<close>.
\<close>

inductive worker_of :: "'raw pgx \<Rightarrow> Store \<Rightarrow> string \<Rightarrow> event list \<Rightarrow> bool" for x st where
  w_schemas: "worker_of x st d (worker_body (fst (listSchemasForDatabase x st (\<lambda>_. None) d)))"
| w_functions: "worker_of x st d (worker_body (fst (listFunctionsForDatabase x st (\<lambda>_. None) d)))"
| w_sequences: "worker_of x st d (worker_body (fst (listSequencesForDatabase x st (\<lambda>_. None) d)))"
| w_extensions: "worker_of x st d (worker_body (fst (listInstalledExtensionsForDatabase x st (\<lambda>_. None) d)))"
| w_tables: "worker_of x st d (worker_body (fst (listTablesForDatabase x st (\<lambda>_. None) d)))"

inductive service :: "'raw pgx set \<Rightarrow> Store \<Rightarrow> sys \<Rightarrow> bool" for X st where
  service_start: "service X st \<lparr>coord = st_coordinator st, chans = [], gor = []\<rparr>"
| service_run: "service X st s \<Longrightarrow> run_step s t \<Longrightarrow> service X st t"
| service_spawn: "service X st s \<Longrightarrow> x \<in> X \<Longrightarrow> worker_of x st d b \<Longrightarrow> service X st (spawn_go s d ctx b)"
| service_cancel: "service X st s \<Longrightarrow> g < length (gor s) \<Longrightarrow>
    service X st (s\<lparr>gor := (gor s)[g := (gor s ! g)\<lparr>g_ctx := Some e\<rparr>]\<rparr>)"

lemma worker_of_body_ok: "worker_of x st d b \<Longrightarrow> body_ok 0 b"
  by (induction rule: worker_of.induct)
    (auto intro!: bracketed_body schemas_worker.permit_bracketed functions_worker.permit_bracketed
      sequences_worker.permit_bracketed extensions_worker.permit_bracketed tables_worker.permit_bracketed)

lemma service_reachable:
  assumes "service X st s" "NewStore y p cs = Inr st"
  shows "reachable s"
  using assms(1)
proof (induction rule: service.induct)
  case service_start
  have "st_coordinator st = NewConnectionCoordinator"
    using NewStore_fields [OF assms(2)] by blast
  then show ?case
    using reachable_init by (simp add: init_sys_def)
next
  case (service_run s t)
  then show ?case using reachable_step by (simp add: sys_step_def)
next
  case (service_spawn s x d b ctx)
  then show ?case by (simp add: reachable_spawn worker_of_body_ok)
next
  case (service_cancel s g e)
  then show ?case using reachable_step env_step.cancel by (metis sys_step_def)
qed

text \<open>C1: the service as a whole keeps the promise of the coordinator. In every state of a service whose store
  was made by \<open>NewStore\<close>, with any number of concurrent requests running any of the five workers and
  cancelled at any time, at most one goroutine has a pool open for a given database name; and when all
  goroutines have returned, no pool is open and every permit is back. The pools are those of the workers:
  the store's own pool to the default database is not among them, and \<open>/x\<close> and \<open>x\<close> are two names, although
  they have the same connection string.\<close>

theorem service_one_connection:
  assumes "NewStore y p cs = Inr st" "service X st s"
  shows "(connected s d g \<and> connected s d g' \<longrightarrow> g = g') \<and>
    (all_returned s \<longrightarrow> (\<forall>d g. \<not> connected s d g) \<and>
      (\<forall>d c. dbSemaphores (coord s) d = Some c \<longrightarrow> chans s ! c = 0))"
proof -
  have r: "reachable s"
    by (rule service_reachable [OF assms(2,1)])
  then have inv: "coord_inv s" by (rule reachable_inv)
  have free: "\<not> holder s d g" if "all_returned s" for d g
    using that by (auto simp: all_returned_def holder_def) (metis nth_mem permitted.simps(10))
  have "chans s ! c = 0" if "all_returned s" "dbSemaphores (coord s) d = Some c" for d c
  proof -
    have "chans s ! c \<noteq> 1" "chans s ! c \<le> 1"
      using inv that free unfolding coord_inv_def permits_ok_def sems_ok_def by blast+
    then show ?thesis by simp
  qed
  then show ?thesis
    using connected_holder [OF r] reachable_exclusive [OF r] free by blast
qed

lemma service_exec: "exec s sched = Some t \<Longrightarrow> service X st s \<Longrightarrow> service X st t"
proof (induction s sched rule: exec.induct)
  case (2 s g b sched)
  then obtain u where "g < length (gor s)" "go_step s g b = Some u" "exec u sched = Some t"
    by (auto simp: bind_eq_Some_conv split: if_splits)
  with 2 show ?case
    using service_run run_step.run by metis
qed simp

text \<open>One request in the middle of its work.\<close>

definition demo_service :: sys where
  "demo_service = the (exec (spawn_go init_sys ''app'' None
     (worker_body (fst (listSchemasForDatabase demo_pgx demo_store (\<lambda>_. None) ''app'')))) (replicate 5 (0, False)))"

lemma demo_NewStore: "NewStore demo_pgx ''pg:postgres'' (\<lambda>d. ''pg:'' @ d) = Inr demo_store"
  by (simp add: NewStore_def demo_pgx_def demo_stanza demo_store_def)

lemma demo_service_ok: "service {demo_pgx} demo_store demo_service" "connected demo_service ''app'' 0"
proof -
  let ?b = "worker_body (fst (listSchemasForDatabase demo_pgx demo_store (\<lambda>_. None) ''app''))"
  have b: "?b = [EvPoolNew ''pg:app'', EvQuery ''pg:app'' SqlSchemas, EvRowsClose ''pg:app'' SqlSchemas,
      EvPoolClose ''pg:app'']"
    by (simp add: demo_store_simps worker_body_def)
  have "service {demo_pgx} demo_store init_sys"
    using service_start [of "{demo_pgx}" demo_store] by (simp add: init_sys_def demo_store_def)
  then have "service {demo_pgx} demo_store (spawn_go init_sys ''app'' None ?b)"
    using service_spawn w_schemas by blast
  moreover have "exec (spawn_go init_sys ''app'' None ?b) (replicate 5 (0, False)) = Some demo_service"
    unfolding demo_service_def b by (simp add: demo_simps numeral_eq_Suc)
  ultimately show "service {demo_pgx} demo_store demo_service"
    using service_exec by blast
  show "connected demo_service ''app'' 0"
    unfolding demo_service_def b by (simp add: connected_def demo_simps numeral_eq_Suc)
qed

theorem service_one_connection_witness:
  "service {demo_pgx} demo_store demo_service \<and> {g. connected demo_service ''app'' g} = {0}"
  using service_one_connection [OF demo_NewStore demo_service_ok(1), of "''app''" 0] demo_service_ok by blast

section \<open>From the configuration to the connections\<close>

text \<open>C14: the service connects where it was told to, except for names with a leading slash. Once \<open>main\<close>
  serves, every pool a worker opens for a database has a connection string from which the configured
  user, host and port can be read back, with the SSL parameters of the configuration. Its path is a slash
  and the name of the database, unless the name starts with a slash (or is empty): then the path is the
  name itself, so that the worker of a database \<open>/x\<close> gets the path of the database \<open>x\<close>.\<close>

theorem workers_reach_their_database:
  assumes "Serving sv \<in> set (fst (main b w args))" "NewConfig args = Inr config"
    and "EvPoolNew c \<in> set (fst (listSchemasForDatabase x (sv_store sv) acq d)) \<union>
      set (fst (listFunctionsForDatabase x (sv_store sv) acq d)) \<union>
      set (fst (listSequencesForDatabase x (sv_store sv) acq d)) \<union>
      set (fst (listInstalledExtensionsForDatabase x (sv_store sv) acq d)) \<union>
      set (fst (listTablesForDatabase x (sv_store sv) acq d))"
    and "creds = DbCredentials_of config"
  shows "conn_read c = (Some (dbUser creds), Some (dbHost creds @ '':'' @ show_int (dbPort creds)),
    Some (if d = [] \<or> hd d = CHR ''/'' then d else CHR ''/'' # d), Values_Encode (ssl_query creds))"
proof -
  have "c = st_connStrFor (sv_store sv) d"
    using assms(3) by (auto simp: listSchemasForDatabase_def listFunctionsForDatabase_def
        listSequencesForDatabase_def listInstalledExtensionsForDatabase_def listTablesForDatabase_def
        dest: with_database_pool)
  moreover have "st_connStrFor (sv_store sv) = ConnStrForDb creds"
    using assms(1,2,4) NewStore_fields unfolding main_Serving_iff by fastforce
  ultimately show ?thesis
    by (simp add: conn_read_ConnStrForDb)
qed

theorem workers_reach_their_database_witness:
  "\<exists>sv. Serving sv \<in> set (fst (main ProdBuild demo_world demo_args)) \<and>
     (\<forall>d \<in> {''app'', ''/app''}. \<exists>c.
       EvPoolNew c \<in> set (fst (listSchemasForDatabase demo_pgx (sv_store sv) (\<lambda>_. None) d)) \<and>
       fst (conn_read c) = Some ''testuser'' \<and> fst (snd (snd (conn_read c))) = Some ''/app'')"
proof -
  obtain sv where sv: "Serving sv \<in> set (fst (main ProdBuild demo_world demo_args))"
    using demo_serves by blast
  have c: "EvPoolNew (st_connStrFor (sv_store sv) d) \<in>
      set (fst (listSchemasForDatabase demo_pgx (sv_store sv) (\<lambda>_. None) d))" for d
    by (simp add: listSchemasForDatabase_def with_database_def demo_pgx_def Let_def)
  then have "conn_read (st_connStrFor (sv_store sv) d) = (Some (dbUser (DbCredentials_of demo_config)),
      Some (dbHost (DbCredentials_of demo_config) @ '':'' @ show_int (dbPort (DbCredentials_of demo_config))),
      Some (if d = [] \<or> hd d = CHR ''/'' then d else CHR ''/'' # d), Values_Encode (ssl_query (DbCredentials_of demo_config)))" for d
    using workers_reach_their_database [OF sv demo_args_config, of _ demo_pgx "\<lambda>_. None" d] by blast
  then have "fst (conn_read (st_connStrFor (sv_store sv) d)) = Some ''testuser'' \<and>
      fst (snd (snd (conn_read (st_connStrFor (sv_store sv) d)))) = Some ''/app''" if "d \<in> {''app'', ''/app''}" for d
    using that by (auto simp: demo_config_def)
  with sv c show ?thesis
    by blast
qed

section \<open>From the catalog to the client\<close>

lemma catalog_tables_no_nil: "t \<in> set (catalog_tables cat) \<Longrightarrow> \<not> has_nil t"
  by (auto simp: catalog_tables_def catalog_table_def has_nil_def split: prod.splits)

text \<open>The table request from the catalog to the client. When the server answers from its catalogs, the
  handler never panics, and a client that decodes a response has, for every database that accepts
  connections and is no template, exactly the tables of its catalog with all they consist of.\<close>

theorem ListTables_end_to_end:
  assumes "table_driver x cat" "st = sv_store sv"
    and "pgx_Query x (st_pool st) SqlDatabases = Inr rows" "rw_err rows = None"
    and "is_schedule sched (connectable (cat (st_pool st)))"
    and "\<forall>d \<in> set (connectable (cat (st_pool st))). catalog_ok (cat (st_connStrFor st d)) \<and> sizes_ok (cat (st_connStrFor st d))"
  shows "Server_ListTables x sv acq sched \<noteq> None \<and>
    (Server_ListTables x sv acq sched = Some (Inr resp) \<longrightarrow>
      mset (map (\<lambda>t. (pbdt_Database t, map Table_ofProto (pbdt_Tables t))) (pbl_DatabaseTables resp)) =
      mset (map (\<lambda>d. (d, catalog_tables (cat (st_connStrFor st d)))) (connectable (cat (st_pool st)))))"
proof -
  let ?entries = "map (\<lambda>d. \<lparr>tbi_Database = d, tbi_Tables = catalog_tables (cat (st_connStrFor st d))\<rparr>) (connectable (cat (st_pool st)))"
  have infos: "mset infos = mset ?entries" if "ListTables x st acq sched = Inr infos" for infos
    by (rule table_driver.ListTables_rows [OF assms(1,3-5) that assms(6)])
  have "\<not> has_nil t" if "ListTables x st acq sched = Inr infos" "info \<in> set infos" "t \<in> set (tbi_Tables info)" for infos info t
    using mset_eq_setD [OF infos [OF that(1)]] that(2,3) catalog_tables_no_nil by auto
  then have "Server_ListTables x sv acq sched \<noteq> None"
    unfolding Server_ListTables_None_iff assms(2) [symmetric] by blast
  moreover have "mset (map (\<lambda>t. (pbdt_Database t, map Table_ofProto (pbdt_Tables t))) (pbl_DatabaseTables resp)) =
      mset (map (\<lambda>d. (d, catalog_tables (cat (st_connStrFor st d)))) (connectable (cat (st_pool st))))"
    if resp: "Server_ListTables x sv acq sched = Some (Inr resp)"
  proof -
    obtain infos where ok: "ListTables x st acq sched = Inr infos" and
      msgs: "map (\<lambda>t. (pbdt_Database t, map Table_ofProto (pbdt_Tables t))) (pbl_DatabaseTables resp) =
        map (\<lambda>i. (tbi_Database i, tbi_Tables i)) infos"
      using Server_ListTables_back [OF resp] unfolding assms(2) by blast
    have "mset (map (\<lambda>i. (tbi_Database i, tbi_Tables i)) infos) = mset (map (\<lambda>i. (tbi_Database i, tbi_Tables i)) ?entries)"
      using infos [OF ok] by (metis mset_map)
    then show ?thesis
      unfolding msgs by (simp add: o_def)
  qed
  ultimately show ?thesis by blast
qed

theorem ListTables_end_to_end_witness:
  "Server_ListTables demo_server \<lparr>sv_store = demo_store\<rparr> (\<lambda>d. None) [0] \<noteq> None \<and>
   ListTables demo_server demo_store (\<lambda>d. None) [0] =
     Inr [\<lparr>tbi_Database = ''app'', tbi_Tables = catalog_tables demo_catalog\<rparr>]"
  using ListTables_end_to_end [OF catalog_server.table_driver_axioms _ demo_server_databases _ demo_connectable(2),
      of demo_store "\<lparr>sv_store = demo_store\<rparr>"] demo_catalog_ok demo_server_tables by simp

text \<open>C2: the table request, from the catalogs through the concurrent service to the client. The request may run
  in any state of the service and be interleaved with any other requests and cancellations; the server
  answers from its catalogs and the databases can be queried. When the receiving loop of the request
  has ended and its own goroutines were not cancelled, the value is no error, the handler does not
  panic, and the client that decodes the response has, for every database that accepts connections
  and is no template, exactly the tables of its catalog.\<close>

theorem table_request_end_to_end:
  assumes "NewStore y p cs = Inr (sv_store sv)" "service X (sv_store sv) s" and st: "st = sv_store sv"
    and "table_driver x cat" "pgx_Query x (st_pool st) SqlDatabases = Inr rows" "rw_err rows = None"
    and dbs: "snd (ListDatabases x st) = Inr dbs" "distinct (connectable (cat (st_pool st)))"
    and cats: "\<forall>d \<in> set (connectable (cat (st_pool st))).
      catalog_ok (cat (st_connStrFor st d)) \<and> sizes_ok (cat (st_connStrFor st d)) \<and>
      pgx_New x (st_connStrFor st d) = None \<and>
      (\<exists>q. pgx_Query x (st_connStrFor st d) SqlTables = Inr q \<and> rw_err q = None)"
    and run: "request_reaches (listTablesForDatabase x st) ctx dbs s r" "togo (rq_fan r) = 0"
    and live: "\<forall>i < length dbs. g_ctx (gor (rq_svc r) ! (length (gor s) + i)) = None"
  shows "\<exists>sched acq resp. fan_return (length dbs) (rq_fan r) = ListTables x st acq sched \<and>
    Server_ListTables x sv acq sched = Some (Inr resp) \<and>
    mset (map (\<lambda>t. (pbdt_Database t, map Table_ofProto (pbdt_Tables t))) (pbl_DatabaseTables resp)) =
    mset (map (\<lambda>d. (d, catalog_tables (cat (st_connStrFor st d)))) (connectable (cat (st_pool st))))"
proof -
  have drv: "catalog_driver x cat"
    using assms(4) by (rule table_driver.axioms(1))
  have reach: "reachable s"
    by (rule service_reachable [OF assms(2,1)])
  have names: "map db_Name dbs = connectable (cat (st_pool st))"
    by (rule catalog_driver.database_names [OF drv assms(5,6) dbs(1)])
  obtain sched acq where sched: "is_schedule sched dbs" "fan_return (length dbs) (rq_fan r) = ListTables x st acq sched"
    and acq: "\<forall>i < length dbs. acq (db_Name (dbs ! i)) = None"
    using tables_request_answer [OF reach dbs(1) _ run] dbs(2) names live by metis
  have worker: "\<not> isl (snd (listTablesForDatabase x st acq (db_Name db)))" if db: "db \<in> set dbs" for db
  proof -
    obtain i where "i < length dbs" "db = dbs ! i"
      using db by (metis in_set_conv_nth)
    then have permit: "acq (db_Name db) = None"
      using acq by simp
    have "db_Name db \<in> set (connectable (cat (st_pool st)))"
      unfolding names [symmetric] using db by simp
    with cats obtain q where "pgx_New x (st_connStrFor st (db_Name db)) = None"
      "pgx_Query x (st_connStrFor st (db_Name db)) SqlTables = Inr q" "rw_err q = None"
      "catalog_ok (cat (st_connStrFor st (db_Name db)))" "sizes_ok (cat (st_connStrFor st (db_Name db)))"
      by blast
    then show ?thesis
      using tables_worker_catalog [OF assms(4), of acq "db_Name db" st] permit by simp
  qed
  then obtain infos where "forEachDatabase sched dbs (\<lambda>d. snd (listTablesForDatabase x st acq d)) = Inr infos"
    using forEachDatabase_ok_iff [OF sched(1), of "\<lambda>d. snd (listTablesForDatabase x st acq d)"] by blast
  then have infos: "ListTables x st acq sched = Inr infos"
    by (simp add: ListTables_def dbs(1))
  have "is_schedule sched (connectable (cat (st_pool st)))"
    using sched(1) names by (metis is_schedule_def length_map)
  moreover have "\<forall>d \<in> set (connectable (cat (st_pool st))). catalog_ok (cat (st_connStrFor st d)) \<and> sizes_ok (cat (st_connStrFor st d))"
    using cats by blast
  ultimately have answer: "Server_ListTables x sv acq sched \<noteq> None"
    "\<And>resp. Server_ListTables x sv acq sched = Some (Inr resp) \<Longrightarrow>
      mset (map (\<lambda>t. (pbdt_Database t, map Table_ofProto (pbdt_Tables t))) (pbl_DatabaseTables resp)) =
      mset (map (\<lambda>d. (d, catalog_tables (cat (st_connStrFor st d)))) (connectable (cat (st_pool st))))"
    using ListTables_end_to_end [OF assms(4) st assms(5,6)] by blast+
  obtain resp where "Server_ListTables x sv acq sched = Some (Inr resp)"
    using answer(1) infos unfolding st by (auto simp: Server_ListTables_def)
  with answer(2) sched(2) show ?thesis by blast
qed

lemma demo_NewStore_catalog: "NewStore demo_server ''pg:postgres'' (\<lambda>d. ''pg:'' @ d) =
    Inr (demo_store\<lparr>st_ClusterName := ''c1''\<rparr>)"
  by (simp add: NewStore_def catalog_pgx_def queryClusterConfig_def first_row_def demo_catalog_def demo_stanza demo_store_def)

theorem table_request_end_to_end_witness:
  "\<exists>r sched acq resp. request_reaches (listTablesForDatabase demo_server (demo_store\<lparr>st_ClusterName := ''c1''\<rparr>)) None
       [\<lparr>db_Name = ''app'', db_Oid = 5\<rparr>] init_sys r \<and> togo (rq_fan r) = 0 \<and>
     Server_ListTables demo_server \<lparr>sv_store = demo_store\<lparr>st_ClusterName := ''c1''\<rparr>\<rparr> acq sched = Some (Inr resp) \<and>
     map pbdt_Database (pbl_DatabaseTables resp) = [''app'']"
proof -
  let ?st = "demo_store\<lparr>st_ClusterName := ''c1''\<rparr>"
  let ?w = "listTablesForDatabase demo_server ?st" and ?dbs = "[\<lparr>db_Name = ''app'', db_Oid = 5\<rparr>]"
  let ?start = "request_start ?w None ?dbs init_sys"
  have len: "length (gor init_sys) = 0" by (simp add: init_sys_def)
  obtain r where r: "(request_step ?w ?dbs (length (gor init_sys)))\<^sup>*\<^sup>* ?start r" "request_done r"
    using request.reaches_final [OF tables_worker.request_reaches_inv [OF reachable_init request_reaches_start]] by blast
  then have run: "request_reaches ?w None ?dbs init_sys r" "togo (rq_fan r) = 0"
    using request_reaches_steps [OF _ request_reaches_start] by (simp_all add: request_done_def)
  have "map g_ctx (gor (rq_svc r)) = [None]"
    using request_steps_ctx [OF r(1)] by (simp add: request_start_def start_worker_def spawn_go_def init_sys_def)
  then have live: "\<forall>i < length ?dbs. g_ctx (gor (rq_svc r) ! (length (gor init_sys) + i)) = None"
    by (cases "gor (rq_svc r)") (simp_all add: len)
  have svc: "service {demo_server} ?st init_sys"
    using service_start [of "{demo_server}" ?st] by (simp add: init_sys_def demo_store_def)
  have dbs: "snd (ListDatabases demo_server ?st) = Inr ?dbs"
    using demo_server_dbs by (simp add: ListDatabases_def demo_server_databases)
  have new: "NewStore demo_server ''pg:postgres'' (\<lambda>d. ''pg:'' @ d) = Inr (sv_store \<lparr>sv_store = ?st\<rparr>)"
    and svc': "service {demo_server} (sv_store \<lparr>sv_store = ?st\<rparr>) init_sys"
    and dbs': "snd (ListDatabases demo_server (sv_store \<lparr>sv_store = ?st\<rparr>)) = Inr ?dbs"
    and run': "request_reaches (listTablesForDatabase demo_server (sv_store \<lparr>sv_store = ?st\<rparr>)) None ?dbs init_sys r"
      "togo (rq_fan r) = 0"
    using demo_NewStore_catalog svc dbs run by simp_all
  have query: "pgx_New demo_server p = None \<and> (\<exists>q. pgx_Query demo_server p SqlTables = Inr q \<and> rw_err q = None)" for p
    by (simp add: catalog_pgx_def demo_tables_encodable)
  have cats: "\<forall>d \<in> set (connectable demo_catalog). catalog_ok demo_catalog \<and> sizes_ok demo_catalog \<and>
      pgx_New demo_server (st_connStrFor (sv_store \<lparr>sv_store = ?st\<rparr>) d) = None \<and>
      (\<exists>q. pgx_Query demo_server (st_connStrFor (sv_store \<lparr>sv_store = ?st\<rparr>) d) SqlTables = Inr q \<and> rw_err q = None)"
    using demo_catalog_ok query by blast
  have "distinct (connectable demo_catalog)"
    by (simp add: demo_connectable(1))
  then obtain sched acq resp where resp: "Server_ListTables demo_server \<lparr>sv_store = ?st\<rparr> acq sched = Some (Inr resp)"
    "mset (map (\<lambda>t. (pbdt_Database t, map Table_ofProto (pbdt_Tables t))) (pbl_DatabaseTables resp)) =
      mset (map (\<lambda>d. (d, catalog_tables demo_catalog)) (connectable demo_catalog))"
    using table_request_end_to_end [where x = demo_server and cat = "\<lambda>p. demo_catalog",
      OF new svc' refl catalog_server.table_driver_axioms demo_server_databases rows.select_convs(2) dbs' _ cats run' live]
    by blast
  have "mset (map fst (map (\<lambda>t. (pbdt_Database t, map Table_ofProto (pbdt_Tables t))) (pbl_DatabaseTables resp))) =
      mset (map fst (map (\<lambda>d. (d, catalog_tables demo_catalog)) (connectable demo_catalog)))"
    using arg_cong [OF resp(2), of "image_mset fst"] by (simp only: mset_map)
  then have "mset (map pbdt_Database (pbl_DatabaseTables resp)) = {#''app''#}"
    by (simp add: o_def demo_connectable(1))
  then have "map pbdt_Database (pbl_DatabaseTables resp) = [''app'']"
    by (simp only: mset_single_iff)
  with resp(1) run show ?thesis by (intro exI conjI)
qed

end
